theory Spec2Isabelle
  imports Complex_Main
begin

section \<open>Python values, exceptions and string helpers\<close>

text \<open>
  Strings are byte lists (the UTF-8 encoding of the Python \<open>str\<close>).  Every
  exception that the harvester code can see is a subclass of \<open>Exception\<close>; a
  raising computation returns \<open>Inl e\<close>, a returning one \<open>Inr v\<close>.
\<close>

datatype exn =
    AttributeError
  | IndexError
  | KeyError
  | ValueError
  | TypeError
  | RemoteError
  | Exception string

type_synonym 'a result = "exn + 'a"

definition rbind :: "'a result \<Rightarrow> ('a \<Rightarrow> 'b result) \<Rightarrow> 'b result" where
  "rbind m f = (case m of Inl e \<Rightarrow> Inl e | Inr x \<Rightarrow> f x)"

text \<open>\<open>xs[i]\<close> for a non-negative index: IndexError out of range.\<close>

definition nth_err :: "'a list \<Rightarrow> nat \<Rightarrow> 'a result" where
  "nth_err xs i = (if i < length xs then Inr (xs ! i) else Inl IndexError)"

text \<open>\<open>xs[-k]\<close> for \<open>k > 0\<close>: counts from the end, IndexError out of range.\<close>

definition nth_neg :: "'a list \<Rightarrow> nat \<Rightarrow> 'a result" where
  "nth_neg xs k = (if 0 < k \<and> k \<le> length xs then Inr (xs ! (length xs - k)) else Inl IndexError)"

text \<open>\<open>d[key]\<close> on a dict whose entry for the key is given as an option: KeyError
  when the key is absent.\<close>

definition getitem :: "'a option \<Rightarrow> 'a result" where
  "getitem v = (case v of None \<Rightarrow> Inl KeyError | Some x \<Rightarrow> Inr x)"

text \<open>A sequential map that stops at the first exception (a \<open>for\<close> loop appending results).\<close>

fun map_result :: "('a \<Rightarrow> 'b result) \<Rightarrow> 'a list \<Rightarrow> 'b list result" where
  "map_result f [] = Inr []"
| "map_result f (x # xs) =
     (case f x of Inl e \<Rightarrow> Inl e
      | Inr y \<Rightarrow> (case map_result f xs of Inl e \<Rightarrow> Inl e | Inr ys \<Rightarrow> Inr (y # ys)))"

text \<open>First occurrence of a character: the text before it and the text after it.\<close>

fun break_at :: "char \<Rightarrow> string \<Rightarrow> (string \<times> string) option" where
  "break_at c [] = None"
| "break_at c (x # xs) =
     (if x = c then Some ([], xs)
      else (case break_at c xs of None \<Rightarrow> None | Some (a, b) \<Rightarrow> Some (x # a, b)))"

text \<open>\<open>s.split(c)\<close> with a one-character separator; the result is never empty.\<close>

fun split_on :: "char \<Rightarrow> string \<Rightarrow> string list" where
  "split_on c [] = [[]]"
| "split_on c (x # xs) =
     (if x = c then [] # split_on c xs
      else (case split_on c xs of [] \<Rightarrow> [[x]] | p # ps \<Rightarrow> (x # p) # ps))"

text \<open>\<open>sep.join(xs)\<close>.\<close>

fun join_with :: "string \<Rightarrow> string list \<Rightarrow> string" where
  "join_with sep [] = []"
| "join_with sep [x] = x"
| "join_with sep (x # y # ys) = x @ sep @ join_with sep (y # ys)"

text \<open>
  \<open>s.lower()\<close> on the ASCII letters; other bytes are unchanged.  It is applied to a
  URL scheme, which is ASCII, and to the axis labels before they are compared with
  \<open>x_labels\<close> and \<open>y_labels\<close>: the only non-ASCII character whose lower case is
  ASCII is the Kelvin sign U+212A (\<open>k\<close>), and no label of these lists contains a \<open>k\<close>,
  so a token with a non-ASCII character equals none of them before and after.
\<close>

definition lower_char :: "char \<Rightarrow> char" where
  "lower_char c =
     (if (65::nat) \<le> of_char c \<and> of_char c \<le> (90::nat) then char_of (of_char c + (32::nat)) else c)"

definition lower :: "string \<Rightarrow> string" where
  "lower s = map lower_char s"

text \<open>
  \<open>s.split()\<close>: split on runs of whitespace, dropping empty pieces.  The whitespace of
  \<open>str.isspace\<close> is U+0009-U+000D, U+001C-U+0020, U+0085, U+00A0, U+1680,
  U+2000-U+200A, U+2028, U+2029, U+202F, U+205F and U+3000.  \<open>is_space\<close> holds of the
  ASCII ones, \<open>unicode_spaces\<close> lists the UTF-8 encodings of the others, and
  \<open>space_len s\<close> is the number of bytes of the whitespace character that \<open>s\<close> starts
  with, 0 when it starts with none.
\<close>

definition is_space :: "char \<Rightarrow> bool" where
  "is_space c = (let n = (of_char c :: nat) in (9 \<le> n \<and> n \<le> 13) \<or> (28 \<le> n \<and> n \<le> 32))"

definition unicode_spaces :: "string list" where
  "unicode_spaces =
     [[CHR 0xC2, CHR 0x85], [CHR 0xC2, CHR 0xA0], [CHR 0xE1, CHR 0x9A, CHR 0x80],
      [CHR 0xE2, CHR 0x80, CHR 0x80], [CHR 0xE2, CHR 0x80, CHR 0x81],
      [CHR 0xE2, CHR 0x80, CHR 0x82], [CHR 0xE2, CHR 0x80, CHR 0x83],
      [CHR 0xE2, CHR 0x80, CHR 0x84], [CHR 0xE2, CHR 0x80, CHR 0x85],
      [CHR 0xE2, CHR 0x80, CHR 0x86], [CHR 0xE2, CHR 0x80, CHR 0x87],
      [CHR 0xE2, CHR 0x80, CHR 0x88], [CHR 0xE2, CHR 0x80, CHR 0x89],
      [CHR 0xE2, CHR 0x80, CHR 0x8A], [CHR 0xE2, CHR 0x80, CHR 0xA8],
      [CHR 0xE2, CHR 0x80, CHR 0xA9], [CHR 0xE2, CHR 0x80, CHR 0xAF],
      [CHR 0xE2, CHR 0x81, CHR 0x9F], [CHR 0xE3, CHR 0x80, CHR 0x80]]"

definition space_len :: "string \<Rightarrow> nat" where
  "space_len s =
     (case s of
        [] \<Rightarrow> 0
      | c # cs \<Rightarrow>
          if is_space c then 1
          else (case find (\<lambda>w. take (length w) s = w) unicode_spaces of
                  None \<Rightarrow> 0
                | Some w \<Rightarrow> length w))"

function split_ws_acc :: "string \<Rightarrow> string \<Rightarrow> string list" where
  "split_ws_acc cur [] = (if cur = [] then [] else [rev cur])"
| "split_ws_acc cur (x # xs) =
     (if space_len (x # xs) = 0 then split_ws_acc (x # cur) xs
      else (if cur = [] then [] else [rev cur])
             @ split_ws_acc [] (drop (space_len (x # xs) - 1) xs))"
  by pat_completeness auto
termination
  by (relation "measure (\<lambda>(cur, s). length s)") auto

definition split_ws :: "string \<Rightarrow> string list" where
  "split_ws s = split_ws_acc [] s"

text \<open>\<open>s.replace(c, '')\<close> for a one-character \<open>c\<close>.\<close>

definition remove_char :: "char \<Rightarrow> string \<Rightarrow> string" where
  "remove_char c s = filter (\<lambda>x. x \<noteq> c) s"

section \<open>urllib.parse as used by \<open>get_cleaned_url_params\<close>\<close>

text \<open>
  The standard-library functions that \<open>utils.py\<close> imports, modelled after CPython 3.11
  on byte strings.  \<open>unquote\<close> replaces each \<open>%xx\<close> escape by its byte, scanning left
  to right (exact whenever the decoded bytes are valid UTF-8; Python substitutes U+FFFD
  otherwise).
\<close>

definition is_hexdig :: "char \<Rightarrow> bool" where
  "is_hexdig c = (c \<in> set ''0123456789ABCDEFabcdef'')"

definition hex_val :: "char \<Rightarrow> nat" where
  "hex_val c =
     (let n = (of_char c :: nat) in
      if n \<le> 57 then n - 48 else if n \<le> 70 then n - 55 else n - 87)"

definition hexbyte :: "char \<Rightarrow> char \<Rightarrow> char" where
  "hexbyte a b = char_of (16 * hex_val a + hex_val b)"

fun unquote :: "string \<Rightarrow> string" where
  "unquote [] = []"
| "unquote (c # cs) =
     (if c = CHR ''%'' then
        (case cs of
           a # b # rest \<Rightarrow>
             if is_hexdig a \<and> is_hexdig b then hexbyte a b # unquote rest
             else c # unquote cs
         | _ \<Rightarrow> c # unquote cs)
      else c # unquote cs)"

definition unquote_plus :: "string \<Rightarrow> string" where
  "unquote_plus s = unquote (map (\<lambda>c. if c = CHR ''+'' then CHR '' '' else c) s)"

definition always_safe :: "char \<Rightarrow> bool" where
  "always_safe c =
     (c \<in> set ''ABCDEFGHIJKLMNOPQRSTUVWXYZabcdefghijklmnopqrstuvwxyz0123456789_.-~'')"

definition hexdigit :: "nat \<Rightarrow> char" where
  "hexdigit n = ''0123456789ABCDEF'' ! n"

definition quote_plus_char :: "char \<Rightarrow> string" where
  "quote_plus_char c =
     (if always_safe c then [c]
      else if c = CHR '' '' then ''+''
      else [CHR ''%'', hexdigit ((of_char c :: nat) div 16), hexdigit ((of_char c :: nat) mod 16)])"

definition quote_plus :: "string \<Rightarrow> string" where
  "quote_plus s = concat (map quote_plus_char s)"

text \<open>\<open>urlencode(d, doseq=True)\<close> on a dict of string keys and string values.\<close>

definition urlencode :: "(string \<times> string) list \<Rightarrow> string" where
  "urlencode d = join_with ''&'' (map (\<lambda>(k, v). quote_plus k @ ''='' @ quote_plus v) d)"

text \<open>\<open>parse_qsl(qs)\<close> with its defaults: blank values are dropped, no strict parsing.\<close>

definition parse_field :: "string \<Rightarrow> (string \<times> string) list" where
  "parse_field name_value =
     (if name_value = [] then []
      else (case break_at CHR ''='' name_value of
              None \<Rightarrow> []
            | Some (name, val) \<Rightarrow>
                if val = [] then [] else [(unquote_plus name, unquote_plus val)]))"

definition parse_qsl :: "string \<Rightarrow> (string \<times> string) list" where
  "parse_qsl qs = (if qs = [] then [] else concat (map parse_field (split_on CHR ''&'' qs)))"

text \<open>
  A \<open>dict\<close> with string keys is an association list with distinct keys in insertion
  order: assigning to an existing key keeps its position.
\<close>

definition dict_set :: "(string \<times> 'v) list \<Rightarrow> string \<Rightarrow> 'v \<Rightarrow> (string \<times> 'v) list" where
  "dict_set d k v =
     (if k \<in> fst ` set d then map (\<lambda>(k', v'). if k' = k then (k', v) else (k', v')) d
      else d @ [(k, v)])"

definition dict_of :: "(string \<times> 'v) list \<Rightarrow> (string \<times> 'v) list" where
  "dict_of xs = foldl (\<lambda>d (k, v). dict_set d k v) [] xs"

definition dict_pop :: "(string \<times> 'v) list \<Rightarrow> string \<Rightarrow> (string \<times> 'v) list" where
  "dict_pop d k = filter (\<lambda>(k', v'). k' \<noteq> k) d"

record parse_result =
  scheme :: string
  netloc :: string
  path :: string
  params :: string
  query :: string
  fragment :: string

definition uses_params :: "string list" where
  "uses_params = ['''', ''ftp'', ''hdl'', ''prospero'', ''http'', ''imap'', ''https'', ''shttp'',
     ''rtsp'', ''rtsps'', ''rtspu'', ''sip'', ''sips'', ''mms'', ''sftp'', ''tel'']"

definition uses_netloc :: "string list" where
  "uses_netloc = ['''', ''ftp'', ''http'', ''gopher'', ''nntp'', ''telnet'', ''imap'', ''wais'',
     ''file'', ''mms'', ''https'', ''shttp'', ''snews'', ''prospero'', ''rtsp'', ''rtsps'',
     ''rtspu'', ''rsync'', ''svn'', ''svn+ssh'', ''sftp'', ''nfs'', ''git'', ''git+ssh'',
     ''ws'', ''wss'']"

definition is_ascii_alpha :: "char \<Rightarrow> bool" where
  "is_ascii_alpha c =
     (c \<in> set ''ABCDEFGHIJKLMNOPQRSTUVWXYZabcdefghijklmnopqrstuvwxyz'')"

definition is_scheme_char :: "char \<Rightarrow> bool" where
  "is_scheme_char c =
     (c \<in> set ''abcdefghijklmnopqrstuvwxyzABCDEFGHIJKLMNOPQRSTUVWXYZ0123456789+-.'')"

text \<open>The first steps of \<open>urlsplit\<close>: leading C0 controls and spaces are stripped, then
  tab, carriage return and line feed are removed everywhere.\<close>

definition sanitize_url :: "string \<Rightarrow> string" where
  "sanitize_url url =
     filter (\<lambda>c. c \<noteq> CHR 0x09 \<and> c \<noteq> CHR 0x0D \<and> c \<noteq> CHR 0x0A)
       (dropWhile (\<lambda>c. (of_char c :: nat) \<le> 32) url)"

definition split_scheme :: "string \<Rightarrow> string \<times> string" where
  "split_scheme url =
     (case break_at CHR '':'' url of
        None \<Rightarrow> ([], url)
      | Some (a, b) \<Rightarrow>
          if a \<noteq> [] \<and> is_ascii_alpha (hd a) \<and> list_all is_scheme_char a then (lower a, b)
          else ([], url))"

definition is_netloc_delim :: "char \<Rightarrow> bool" where
  "is_netloc_delim c = (c = CHR ''/'' \<or> c = CHR ''?'' \<or> c = CHR ''#'')"

definition split_netloc :: "string \<Rightarrow> string \<times> string" where
  "split_netloc url =
     (if take 2 url = ''//''
      then (takeWhile (\<lambda>c. \<not> is_netloc_delim c) (drop 2 url),
            dropWhile (\<lambda>c. \<not> is_netloc_delim c) (drop 2 url))
      else ([], url))"

definition split_first :: "char \<Rightarrow> string \<Rightarrow> string \<times> string" where
  "split_first c s = (case break_at c s of None \<Rightarrow> (s, []) | Some (a, b) \<Rightarrow> (a, b))"

text \<open>
  \<open>urlsplit\<close>.  Its validity checks of a non-empty network location (unbalanced
  brackets, a malformed bracketed host, characters that NFKC-normalise to delimiters)
  raise ValueError; they are the parameter \<open>bad_netloc\<close>.
\<close>

definition urlsplit :: "(string \<Rightarrow> bool) \<Rightarrow> string \<Rightarrow> (string \<times> string \<times> string \<times> string \<times> string) result" where
  "urlsplit bad_netloc url0 =
     (let url = sanitize_url url0;
          (sch, url1) = split_scheme url;
          (nl, url2) = split_netloc url1;
          (url3, frag) = split_first CHR ''#'' url2;
          (url4, qry) = split_first CHR ''?'' url3
      in if nl \<noteq> [] \<and> bad_netloc nl then Inl ValueError
         else Inr (sch, nl, url4, qry, frag))"

definition splitparams :: "string \<Rightarrow> string \<times> string" where
  "splitparams url =
     (if CHR ''/'' \<in> set url then
        (let k = length url - Suc (length (takeWhile (\<lambda>c. c \<noteq> CHR ''/'') (rev url)))
         in (case break_at CHR '';'' (drop k url) of
               None \<Rightarrow> (url, [])
             | Some (a, b) \<Rightarrow> (take k url @ a, b)))
      else (case break_at CHR '';'' url of
              None \<Rightarrow> (butlast url, url)
            | Some (a, b) \<Rightarrow> (a, b)))"

definition urlparse :: "(string \<Rightarrow> bool) \<Rightarrow> string \<Rightarrow> parse_result result" where
  "urlparse bad_netloc url =
     (case urlsplit bad_netloc url of
        Inl e \<Rightarrow> Inl e
      | Inr (sch, nl, p, qry, frag) \<Rightarrow>
          (let (p', prm) = (if sch \<in> set uses_params \<and> CHR '';'' \<in> set p then splitparams p
                            else (p, []))
           in Inr \<lparr>scheme = sch, netloc = nl, path = p', params = prm, query = qry,
                    fragment = frag\<rparr>))"

definition urlunsplit :: "string \<Rightarrow> string \<Rightarrow> string \<Rightarrow> string \<Rightarrow> string \<Rightarrow> string" where
  "urlunsplit sch nl url qry frag =
     (let url1 = (if nl \<noteq> [] \<or> (sch \<noteq> [] \<and> sch \<in> set uses_netloc) \<or> take 2 url = ''//''
                  then ''//'' @ nl @ (if url \<noteq> [] \<and> take 1 url \<noteq> ''/'' then ''/'' @ url else url)
                  else url);
          url2 = (if sch \<noteq> [] then sch @ '':'' @ url1 else url1);
          url3 = (if qry \<noteq> [] then url2 @ ''?'' @ qry else url2)
      in if frag \<noteq> [] then url3 @ ''#'' @ frag else url3)"

definition geturl :: "parse_result \<Rightarrow> string" where
  "geturl r =
     urlunsplit (scheme r) (netloc r)
       (if params r \<noteq> [] then path r @ '';'' @ params r else path r)
       (query r) (fragment r)"

section \<open>utils.py\<close>

definition get_cleaned_url_params ::
  "(string \<Rightarrow> bool) \<Rightarrow> string \<Rightarrow> (string \<times> string option \<times> string \<times> string option) result" where
  "get_cleaned_url_params bad_netloc url0 =
     (let url = unquote url0 in
      case urlparse bad_netloc url of
        Inl e \<Rightarrow> Inl e
      | Inr parsed_url \<Rightarrow>
          (let get_args = query parsed_url;
               parsed_get_args = dict_of (parse_qsl get_args);
               version' = (case map_of parsed_get_args ''version'' of
                             Some v \<Rightarrow> v | None \<Rightarrow> ''2.0.1'');
               args1 = dict_pop parsed_get_args ''version'';
               service' = map_of args1 ''service'';
               args2 = dict_pop args1 ''service'';
               request' = map_of args2 ''request'';
               args3 = dict_pop args2 ''request'';
               encoded_get_args = urlencode args3;
               new_url = geturl \<lparr>scheme = scheme parsed_url, netloc = netloc parsed_url,
                                 path = path parsed_url, params = params parsed_url,
                                 query = encoded_get_args, fragment = fragment parsed_url\<rparr>
           in Inr (new_url, service', version', request')))"

section \<open>The remote endpoint and the host platform\<close>

text \<open>
  A dict with a fixed set of possible keys is a record of options: \<open>None\<close> is an
  absent key (subscripting raises KeyError).  An entry of a bounding-box list has the keys
  \<open>nativeSrs\<close>, \<open>bbox\<close> and \<open>temporal_extent\<close>.  Coordinates are only copied,
  never computed with; reals stand for the float values.
\<close>

record bbox_dict =
  nativeSrs :: "string option"
  bbox :: "real list option"
  bbox_temporal_extent :: "(string \<times> string) option"

text \<open>
  The coverage object (owslib's ContentMetadata) as the harvester reads it: the outcome of
  reading each attribute.  A missing attribute is \<open>Inl AttributeError\<close>; \<open>boundingboxes\<close>
  is a property whose evaluation may raise anything.  Reading an attribute twice gives the
  same outcome.
\<close>

record content_metadata =
  cov_id :: "string option result"
  title :: "string option result"
  abstract :: "string option result"
  cov_keywords :: "string list result"
  boundingBox :: "real list option result"
  boundingBoxWGS84 :: "real list option result"
  boundingboxes :: "bbox_dict list result"

text \<open>
  An Envelope element of the describe-coverage document: its attributes (\<open>None\<close> when
  absent) and its corner children (\<open>None\<close>: no such child; \<open>Some None\<close>: a child
  without text).
\<close>

record envelope =
  srsName :: "string option"
  srsDimension :: "string option"
  axisLabels :: "string option"
  lowerCorner :: "string option option"
  upperCorner :: "string option option"

text \<open>
  The connection object of owslib.  \<open>getDescribeCoverage\<close> stands for the request
  followed by \<open>findall\<close> of the Envelope elements of the returned document.
\<close>

record wcs_service =
  url :: string
  contents :: "(string \<times> content_metadata) list"
  getDescribeCoverage :: "string option \<Rightarrow> envelope list result"

record topic_category =
  category_identifier :: string

text \<open>
  What the code takes from outside the repository: the Django settings, the owslib
  constructor \<open>WebCoverageService(url, version, timeout)\<close>, the builtins \<open>int\<close> and
  \<open>float\<close> on strings (\<open>None\<close>: ValueError), the rows of the TopicCategory table
  (\<open>Inl\<close>: the query raises) and the network-location checks of \<open>urlsplit\<close>.
\<close>

record env =
  OGC_SERVER :: "string \<rightharpoonup> (string \<rightharpoonup> int)"
  WebCoverageService :: "string \<Rightarrow> string \<Rightarrow> int \<Rightarrow> wcs_service result"
  invalid_netloc :: "string \<Rightarrow> bool"
  py_int :: "string \<Rightarrow> int option"
  py_float :: "string \<Rightarrow> real option"
  TopicCategory_table :: "topic_category list result"

text \<open>
  Requests sent to the remote endpoint are logged: an effectful function returns the
  requests it issued, in order, with its outcome.
\<close>

datatype request =
    GetCapabilities string string int
  | DescribeCoverage "string option"

type_synonym 'a io = "request list \<times> 'a result"

definition io_pure :: "'a result \<Rightarrow> 'a io" where
  "io_pure r = ([], r)"

definition io_bind :: "'a io \<Rightarrow> ('a \<Rightarrow> 'b io) \<Rightarrow> 'b io" where
  "io_bind m f =
     (case m of
        (l, Inl e) \<Rightarrow> (l, Inl e)
      | (l, Inr x) \<Rightarrow> (case f x of (l', r) \<Rightarrow> (l @ l', r)))"

text \<open>\<open>try: m  except Exception: h\<close>.\<close>

definition io_catch :: "'a io \<Rightarrow> (exn \<Rightarrow> 'a io) \<Rightarrow> 'a io" where
  "io_catch m h =
     (case m of
        (l, Inl e) \<Rightarrow> (case h e of (l', r) \<Rightarrow> (l @ l', r))
      | (l, Inr x) \<Rightarrow> (l, Inr x))"

text \<open>\<open>getattr(obj, name, default)\<close>: only AttributeError is replaced by the default.\<close>

definition getattr_default :: "'a result \<Rightarrow> 'a \<Rightarrow> 'a result" where
  "getattr_default a d = (case a of Inl AttributeError \<Rightarrow> Inr d | _ \<Rightarrow> a)"

definition get_wcs_service :: "env \<Rightarrow> string \<Rightarrow> wcs_service io" where
  "get_wcs_service E u =
     (case get_cleaned_url_params (invalid_netloc E) u of
        Inl e \<Rightarrow> ([], Inl e)
      | Inr (cleaned_url, service', version', request') \<Rightarrow>
          (case OGC_SERVER E ''default'' of
             None \<Rightarrow> ([], Inl KeyError)
           | Some ogc_server_settings \<Rightarrow>
               (let timeout = (case ogc_server_settings ''TIMEOUT'' of
                                 None \<Rightarrow> 60 | Some t \<Rightarrow> t)
                in ([GetCapabilities cleaned_url version' timeout],
                    WebCoverageService E cleaned_url version' timeout))))"

section \<open>serviceprocessors/wcs.py\<close>

definition probe :: "env \<Rightarrow> string \<Rightarrow> bool io" where
  "probe E self_url =
     io_catch
       (io_bind (get_wcs_service E self_url)
          (\<lambda>wcs. io_pure (Inr (if length (contents wcs) > 0 then True else False))))
       (\<lambda>e. io_pure (Inr False))"

section \<open>harvesters/wcs.py\<close>

definition get_wcs :: "env \<Rightarrow> string \<Rightarrow> wcs_service io" where
  "get_wcs E remote_url = get_wcs_service E remote_url"

record brief_remote_resource =
  unique_identifier :: string
  brief_title :: string
  brief_abstract :: string
  resource_type :: string

definition brief_resource :: "string \<times> content_metadata \<Rightarrow> brief_remote_resource result" where
  "brief_resource item =
     (case item of (coverage_name, coverage) \<Rightarrow>
        rbind (title coverage) (\<lambda>t.
          let title' = (case t of None \<Rightarrow> coverage_name | Some s \<Rightarrow> s) in
          rbind (abstract coverage) (\<lambda>a.
            let abstract' = (case a of None \<Rightarrow> ''Not provided'' | Some s \<Rightarrow> s) in
            Inr \<lparr>unique_identifier = coverage_name, brief_title = title',
                 brief_abstract = abstract', resource_type = ''layers''\<rparr>)))"

definition list_resources :: "env \<Rightarrow> string \<Rightarrow> int option \<Rightarrow> brief_remote_resource list io" where
  "list_resources E remote_url offset =
     (if offset \<noteq> Some 0 then ([], Inr [])
      else io_bind (get_wcs E remote_url)
             (\<lambda>wcs. io_pure (map_result brief_resource (contents wcs))))"

definition check_availability :: "env \<Rightarrow> string \<Rightarrow> int option \<Rightarrow> bool io" where
  "check_availability E remote_url timeout_seconds =
     io_catch
       (io_bind (get_wcs E remote_url)
          (\<lambda>wcs. io_pure (Inr (if length (contents wcs) > 0 then True else False))))
       (\<lambda>e. io_pure (Inr False))"

definition x_labels :: "string list" where
  "x_labels = [''longitude'', ''lon'', ''long'', ''e'', ''w'', ''x'']"

definition y_labels :: "string list" where
  "y_labels = [''latitude'', ''lat'', ''n'', ''s'', ''y'']"

text \<open>\<open>lc = envelope.find(...)\<close>; \<open>lc = lc.text.split()\<close>.\<close>

definition corner_tokens :: "string option option \<Rightarrow> string list result" where
  "corner_tokens c =
     (case c of
        None \<Rightarrow> Inl AttributeError
      | Some None \<Rightarrow> Inl AttributeError
      | Some (Some t) \<Rightarrow> Inr (split_ws t))"

text \<open>\<open>float(xs[i])\<close>.\<close>

definition float_at :: "env \<Rightarrow> string list \<Rightarrow> nat \<Rightarrow> real result" where
  "float_at E xs i =
     rbind (nth_err xs i)
       (\<lambda>s. case py_float E s of None \<Rightarrow> Inl ValueError | Some v \<Rightarrow> Inr v)"

text \<open>A 4-tuple whose components are evaluated from left to right.\<close>

definition tuple4 :: "real result \<Rightarrow> real result \<Rightarrow> real result \<Rightarrow> real result \<Rightarrow> real list result" where
  "tuple4 a b c d =
     rbind a (\<lambda>x0. rbind b (\<lambda>x1. rbind c (\<lambda>x2. rbind d (\<lambda>x3. Inr [x0, x1, x2, x3]))))"

text \<open>\<open>axis_labels[i] in y_labels and axis_labels[j] in x_labels\<close>.\<close>

definition lat_lon_order :: "string list \<Rightarrow> nat \<Rightarrow> nat \<Rightarrow> bool result" where
  "lat_lon_order axis_labels i j =
     rbind (nth_err axis_labels i)
       (\<lambda>a. if a \<in> set y_labels
             then rbind (nth_err axis_labels j) (\<lambda>b. Inr (b \<in> set x_labels))
             else Inr False)"

text \<open>\<open>int(s)\<close>.\<close>

definition int_of :: "env \<Rightarrow> string \<Rightarrow> int result" where
  "int_of E s = (case py_int E s of None \<Rightarrow> Inl ValueError | Some n \<Rightarrow> Inr n)"

text \<open>The branches on \<open>dims\<close> in the loop body of \<open>_getOtherBoundingBoxes\<close>.\<close>

definition envelope_bbox ::
  "env \<Rightarrow> string \<Rightarrow> int \<Rightarrow> string list \<Rightarrow> string list \<Rightarrow> string list \<Rightarrow> bbox_dict result" where
  "envelope_bbox E srs dims axis_labels lc uc =
     (if dims = 2 then
        rbind (lat_lon_order axis_labels 0 1) (\<lambda>swap.
        rbind (if swap
               then tuple4 (float_at E lc 1) (float_at E lc 0) (float_at E uc 1) (float_at E uc 0)
               else tuple4 (float_at E lc 0) (float_at E lc 1) (float_at E uc 0) (float_at E uc 1))
          (\<lambda>b. Inr \<lparr>nativeSrs = Some srs, bbox = Some b, bbox_temporal_extent = None\<rparr>))
      else if dims = 3 then
        rbind (lat_lon_order axis_labels 1 2) (\<lambda>swap.
        rbind (if swap
               then tuple4 (float_at E lc 2) (float_at E lc 1) (float_at E uc 2) (float_at E uc 1)
               else tuple4 (float_at E lc 1) (float_at E lc 2) (float_at E uc 1) (float_at E uc 2))
          (\<lambda>b.
        rbind (nth_err lc 0) (\<lambda>t0.
        rbind (nth_err uc 0) (\<lambda>t1.
          Inr \<lparr>nativeSrs = Some srs, bbox = Some b,
               bbox_temporal_extent =
                 Some (remove_char (CHR 0x22) t0, remove_char (CHR 0x22) t1)\<rparr>))))
      else
        rbind (tuple4 (float_at E lc 0) (float_at E lc 1) (float_at E uc 0) (float_at E uc 1))
          (\<lambda>b. Inr \<lparr>nativeSrs = Some srs, bbox = Some b, bbox_temporal_extent = None\<rparr>))"

text \<open>The body of the loop over the envelopes in \<open>_getOtherBoundingBoxes\<close>.\<close>

definition parse_envelope :: "env \<Rightarrow> envelope \<Rightarrow> bbox_dict result" where
  "parse_envelope E envelope =
     rbind (getitem (srsName envelope)) (\<lambda>srs.
     rbind (rbind (getitem (srsDimension envelope)) (int_of E)) (\<lambda>dims.
     rbind (getitem (axisLabels envelope)) (\<lambda>al.
     rbind (corner_tokens (lowerCorner envelope)) (\<lambda>lc.
     rbind (corner_tokens (upperCorner envelope)) (\<lambda>uc.
       envelope_bbox E srs dims (split_ws (lower al)) lc uc)))))"

definition getOtherBoundingBoxes :: "env \<Rightarrow> string \<Rightarrow> string option \<Rightarrow> bbox_dict list io" where
  "getOtherBoundingBoxes E remote_url coverage_id =
     (case io_bind (get_wcs E remote_url)
             (\<lambda>wcs. ([DescribeCoverage coverage_id], getDescribeCoverage wcs coverage_id)) of
        (l, Inl e) \<Rightarrow> (l, Inr [])
      | (l, Inr describe_coverage) \<Rightarrow> (l, map_result (parse_envelope E) describe_coverage))"

type_synonym polygon = "(real \<times> real) list"

text \<open>
  Modelled from the spec: \<open>geos.Polygon.from_bbox\<close> is Django code, outside this
  repository.  Per the spec the rectangle becomes the ring
  \<open>(min_x, min_y), (max_x, min_y), (max_x, max_y), (min_x, max_y)\<close>, closed back to the start.
\<close>

definition from_bbox :: "real \<times> real \<times> real \<times> real \<Rightarrow> polygon" where
  "from_bbox r =
     (case r of (x0, y0, x1, y1) \<Rightarrow> [(x0, y0), (x1, y0), (x1, y1), (x0, y1), (x0, y0)])"

text \<open>The dict returned by \<open>_get_bbox\<close>; the key \<open>crs\<close> may be absent.\<close>

record resolved_bbox =
  crs :: "string option"
  temporal_extent :: "(string \<times> string) option"
  spatial_extent :: polygon

text \<open>\<open>(s[0], s[1], s[2], s[3])\<close>.\<close>

definition rect_of :: "real list \<Rightarrow> (real \<times> real \<times> real \<times> real) result" where
  "rect_of s =
     rbind (nth_err s 0) (\<lambda>left_x. rbind (nth_err s 1) (\<lambda>lower_y.
     rbind (nth_err s 2) (\<lambda>right_x. rbind (nth_err s 3) (\<lambda>upper_y.
       Inr (left_x, lower_y, right_x, upper_y)))))"

text \<open>\<open>b['bbox'][0], ..., b['bbox'][3]\<close>.\<close>

definition native_rect :: "bbox_dict \<Rightarrow> (real \<times> real \<times> real \<times> real) result" where
  "native_rect b = rbind (getitem (bbox b)) rect_of"

text \<open>\<open>'{}:{}'.format(srid_url.split('/')[-3], srid_url.split('/')[-1])\<close>.\<close>

definition crs_of_srs :: "string \<Rightarrow> string result" where
  "crs_of_srs srid_url =
     rbind (nth_neg (split_on CHR ''/'' srid_url) 3) (\<lambda>a.
     rbind (nth_neg (split_on CHR ''/'' srid_url) 1) (\<lambda>b. Inr (a @ '':'' @ b)))"

definition native_crs :: "bbox_dict \<Rightarrow> string result" where
  "native_crs b = rbind (getitem (nativeSrs b)) crs_of_srs"

text \<open>
  \<open>_get_bbox\<close>.  The two availability probes run first, then the \<open>if\<close>/\<open>elif\<close>
  chain; \<open>other_boundingboxes = False\<close> is the empty list here (both are falsy, and the
  value is only used when truthy).
\<close>

definition native_result :: "bbox_dict list \<Rightarrow> resolved_bbox result" where
  "native_result bs =
     rbind (nth_err bs 0) (\<lambda>b.
     rbind (native_rect b) (\<lambda>r.
     rbind (native_crs b) (\<lambda>c.
       Inr \<lparr>crs = Some c, temporal_extent = None, spatial_extent = from_bbox r\<rparr>)))"

definition other_result :: "bbox_dict list \<Rightarrow> resolved_bbox result" where
  "other_result bs =
     rbind (nth_err bs 0) (\<lambda>b.
     rbind (native_rect b) (\<lambda>r.
     rbind (native_crs b) (\<lambda>c.
     rbind (getitem (bbox_temporal_extent b)) (\<lambda>t.
       Inr \<lparr>crs = Some c, temporal_extent = Some t, spatial_extent = from_bbox r\<rparr>))))"

definition default_result :: "resolved_bbox" where
  "default_result =
     \<lparr>crs = Some ''EPSG:4326'', temporal_extent = None,
      spatial_extent = from_bbox (-180, -90, 180, 90)\<rparr>"

text \<open>The \<open>if\<close>/\<open>elif\<close> chain of \<open>_get_bbox\<close> over the two probe results.\<close>

definition choose_bbox :: "content_metadata \<Rightarrow> bool \<Rightarrow> bbox_dict list \<Rightarrow> resolved_bbox result" where
  "choose_bbox wcs_content has other =
     rbind (boundingBox wcs_content) (\<lambda>bb.
       (case bb of
          Some (c # cs) \<Rightarrow>
            rbind (rect_of (c # cs)) (\<lambda>r.
              Inr \<lparr>crs = None, temporal_extent = None, spatial_extent = from_bbox r\<rparr>)
        | _ \<Rightarrow>
            rbind (boundingBoxWGS84 wcs_content) (\<lambda>wgs.
              (case wgs of
                 Some (c # cs) \<Rightarrow>
                   rbind (rect_of (c # cs)) (\<lambda>r.
                     Inr \<lparr>crs = Some ''EPSG:4326'', temporal_extent = None,
                          spatial_extent = from_bbox r\<rparr>)
               | _ \<Rightarrow>
                   if has then rbind (boundingboxes wcs_content) native_result
                   else if other \<noteq> [] then other_result other
                   else Inr default_result))))"

text \<open>The first \<open>try\<close> block of \<open>_get_bbox\<close>.\<close>

definition has_boundingboxes :: "content_metadata \<Rightarrow> bool" where
  "has_boundingboxes wcs_content =
     (case boundingboxes wcs_content of Inl e \<Rightarrow> False | Inr bs \<Rightarrow> length bs > 0)"

text \<open>The second \<open>try\<close> block of \<open>_get_bbox\<close>, with the requests it sends.\<close>

definition other_boundingboxes :: "env \<Rightarrow> string \<Rightarrow> content_metadata \<Rightarrow> request list \<times> bbox_dict list" where
  "other_boundingboxes E remote_url wcs_content =
     (case cov_id wcs_content of
        Inl e \<Rightarrow> ([], [])
      | Inr cid \<Rightarrow>
          (case getOtherBoundingBoxes E remote_url cid of
             (l, Inl e) \<Rightarrow> (l, [])
           | (l, Inr bs) \<Rightarrow> (l, bs)))"

definition get_bbox :: "env \<Rightarrow> string \<Rightarrow> content_metadata \<Rightarrow> resolved_bbox io" where
  "get_bbox E remote_url wcs_content =
     (let has = has_boundingboxes wcs_content;
          (log, other) = other_boundingboxes E remote_url wcs_content
      in (log, choose_bbox wcs_content has other))"

text \<open>The dict built by \<open>_get_wcs_content_metadata\<close>, and \<open>_get_metadata\<close>'s, which adds the category.\<close>

record content_record =
  md_name :: string
  md_title :: "string option"
  md_keywords :: "string list"
  md_abstract :: "string option"
  md_wcs_url :: string
  md_spatial_extent :: polygon
  md_crs :: string
  md_temporal_extent :: "(string \<times> string) option"

record metadata_record = content_record +
  md_category :: "topic_category option"

text \<open>The dict literal at the end of \<open>_get_wcs_content_metadata\<close>, evaluated in key order.\<close>

definition build_record ::
  "wcs_service \<Rightarrow> string \<Rightarrow> content_metadata \<Rightarrow> resolved_bbox \<Rightarrow> content_record result" where
  "build_record wcs name wcs_content bbox' =
     (let spatial_extent' = spatial_extent bbox';
          temporal_extent' = temporal_extent bbox'
      in rbind (getattr_default (title wcs_content) None) (\<lambda>title'.
         rbind (getattr_default (cov_keywords wcs_content) []) (\<lambda>keywords'.
         rbind (getattr_default (abstract wcs_content) None) (\<lambda>abstract'.
         rbind (getitem (crs bbox')) (\<lambda>crs'.
           Inr \<lparr>md_name = name, md_title = title', md_keywords = keywords',
                md_abstract = abstract', md_wcs_url = url wcs,
                md_spatial_extent = spatial_extent', md_crs = crs',
                md_temporal_extent =
                  (case temporal_extent' of
                     None \<Rightarrow> None
                   | Some (t0, t1) \<Rightarrow> Some (t0, t1))\<rparr>)))))"

definition get_wcs_content_metadata :: "env \<Rightarrow> string \<Rightarrow> string \<Rightarrow> content_record io" where
  "get_wcs_content_metadata E remote_url coverage_id =
     (case io_bind (get_wcs E remote_url)
             (\<lambda>wcs. io_pure (case map_of (contents wcs) coverage_id of
                                None \<Rightarrow> Inl KeyError
                              | Some wcs_content \<Rightarrow> Inr (wcs, wcs_content))) of
        (l, Inl e) \<Rightarrow> (l, Inl (Exception (''No coverage with id '' @ coverage_id)))
      | (l, Inr (wcs, wcs_content)) \<Rightarrow>
          (case getattr_default (cov_id wcs_content) None of
             Inl e \<Rightarrow> (l, Inl e)
           | Inr None \<Rightarrow> (l, Inl (Exception ''Coverage has no id''))
           | Inr (Some name) \<Rightarrow>
               (case get_bbox E remote_url wcs_content of
                  (l', r) \<Rightarrow> (l @ l', rbind r (build_record wcs name wcs_content)))))"

text \<open>
  Modelled from the spec: \<open>TopicCategory.objects.filter(identifier=...)\<close> is a query of
  the host platform's ORM, outside this repository.  Per the spec an entry of the vocabulary
  matches when its identifier equals the keyword exactly, case-sensitively.
\<close>

definition TopicCategory_filter :: "env \<Rightarrow> string \<Rightarrow> topic_category list result" where
  "TopicCategory_filter E category_string =
     rbind (TopicCategory_table E) (\<lambda>rows. Inr (filter (\<lambda>c. category_identifier c = category_string) rows))"

definition get_category :: "env \<Rightarrow> string \<Rightarrow> topic_category option result" where
  "get_category E category_string =
     (case rbind (TopicCategory_filter E category_string)
             (\<lambda>category_qs. if category_qs \<noteq> [] then rbind (nth_err category_qs 0) (\<lambda>c. Inr (Some c))
                             else Inr None) of
        Inl e \<Rightarrow> Inr None
      | Inr r \<Rightarrow> Inr r)"

text \<open>The loop over the keywords in \<open>_get_metadata\<close>: the first truthy category wins.\<close>

fun first_category :: "env \<Rightarrow> string list \<Rightarrow> topic_category option result" where
  "first_category E [] = Inr None"
| "first_category E (keyword # rest) =
     rbind (get_category E keyword) (\<lambda>category.
       case category of Some c \<Rightarrow> Inr (Some c) | None \<Rightarrow> first_category E rest)"

definition get_metadata :: "env \<Rightarrow> string \<Rightarrow> string \<Rightarrow> metadata_record io" where
  "get_metadata E remote_url coverage_id =
     io_bind (get_wcs_content_metadata E remote_url coverage_id) (\<lambda>metadata.
       let m1 = (if md_title metadata = None then metadata\<lparr>md_title := Some (md_name metadata)\<rparr>
                 else metadata);
           m2 = (if md_abstract m1 = None then m1\<lparr>md_abstract := Some ''Not provided''\<rparr> else m1)
       in io_pure (rbind (first_category E (md_keywords m2))
                     (\<lambda>category. Inr (content_record.extend m2 \<lparr>md_category = category\<rparr>))))"

section \<open>Concrete environments\<close>

text \<open>
  Python's \<open>int\<close> and \<open>float\<close> on an optionally negated string of ASCII decimal
  digits, where both return the number written.  They instantiate the builtins at
  concrete inputs.
\<close>

fun digits_value :: "nat \<Rightarrow> string \<Rightarrow> nat option" where
  "digits_value acc [] = Some acc"
| "digits_value acc (c # cs) =
     (if c \<in> set ''0123456789'' then digits_value (10 * acc + (of_char c - 48)) cs else None)"

definition dec_int :: "string \<Rightarrow> int option" where
  "dec_int s =
     (case s of
        [] \<Rightarrow> None
      | c # cs \<Rightarrow>
          if c = CHR ''-''
          then (if cs = [] then None else map_option (\<lambda>n. - int n) (digits_value 0 cs))
          else map_option int (digits_value 0 s))"

definition dec_float :: "string \<Rightarrow> real option" where
  "dec_float s = map_option real_of_int (dec_int s)"

text \<open>
  An environment with default settings (no TIMEOUT entry), an endpoint that answers every
  connection with \<open>answer\<close>, and the given TopicCategory rows.
\<close>

definition sample_env :: "wcs_service result \<Rightarrow> topic_category list result \<Rightarrow> env" where
  "sample_env answer rows =
     \<lparr>OGC_SERVER = [''default'' \<mapsto> Map.empty],
      WebCoverageService = (\<lambda>u v t. answer),
      invalid_netloc = (\<lambda>n. False),
      py_int = dec_int,
      py_float = dec_float,
      TopicCategory_table = rows\<rparr>"

text \<open>
  A coverage with id \<open>cov\<close>, no title and no abstract, and a service at
  \<open>http://h/wcs\<close> that advertises it and answers every describe-coverage request with
  the envelopes \<open>d\<close>.
\<close>

definition sample_coverage ::
  "real list option \<Rightarrow> real list option \<Rightarrow> bbox_dict list result \<Rightarrow> string list \<Rightarrow> content_metadata" where
  "sample_coverage bb wgs boxes kws =
     \<lparr>cov_id = Inr (Some ''cov''), title = Inr None, abstract = Inr None,
      cov_keywords = Inr kws, boundingBox = Inr bb, boundingBoxWGS84 = Inr wgs,
      boundingboxes = boxes\<rparr>"

definition sample_service :: "content_metadata \<Rightarrow> envelope list result \<Rightarrow> wcs_service" where
  "sample_service c d =
     \<lparr>url = ''http://h/wcs'', contents = [(''cov'', c)], getDescribeCoverage = (\<lambda>i. d)\<rparr>"

text \<open>A service advertising two coverages: \<open>a\<close> without title and abstract, \<open>b\<close> with both.\<close>

definition two_coverages :: wcs_service where
  "two_coverages =
     \<lparr>url = ''http://h/wcs'',
      contents = [(''a'', sample_coverage None None (Inr []) []),
                  (''b'', (sample_coverage None None (Inr []) [])
                            \<lparr>title := Inr (Some ''B''), abstract := Inr (Some ''about b'')\<rparr>)],
      getDescribeCoverage = (\<lambda>i. Inr [])\<rparr>"

text \<open>A coverage with a WGS84 box and two keywords, and a vocabulary of one category.\<close>

definition hydro_coverage :: content_metadata where
  "hydro_coverage =
     sample_coverage None (Some [10, 20, 30, 40]) (Inr []) [''Hydrology'', ''OtherTag'']"

definition hydro_env :: env where
  "hydro_env =
     sample_env (Inr (sample_service hydro_coverage (Inr [])))
       (Inr [\<lparr>category_identifier = ''Hydrology''\<rparr>])"

definition hydro_record :: metadata_record where
  "hydro_record =
     \<lparr>md_name = ''cov'', md_title = Some ''cov'', md_keywords = [''Hydrology'', ''OtherTag''],
      md_abstract = Some ''Not provided'', md_wcs_url = ''http://h/wcs'',
      md_spatial_extent = [(10, 20), (30, 20), (30, 40), (10, 40), (10, 20)],
      md_crs = ''EPSG:4326'', md_temporal_extent = None,
      md_category = Some \<lparr>category_identifier = ''Hydrology''\<rparr>\<rparr>"




text \<open>A coverage without any bounding-box information, at an endpoint without envelopes.\<close>

definition bare_coverage :: content_metadata where
  "bare_coverage = sample_coverage None None (Inr []) []"

definition bare_env :: env where
  "bare_env = sample_env (Inr (sample_service bare_coverage (Inr []))) (Inr [])"

text \<open>A coverage whose primary bounding box is set.\<close>

definition primary_coverage :: content_metadata where
  "primary_coverage = sample_coverage (Some [10, 20, 30, 40]) None (Inr []) []"

definition primary_env :: env where
  "primary_env = sample_env (Inr (sample_service primary_coverage (Inr []))) (Inr [])"

text \<open>
  Envelopes: three-dimensional with quoted time values, three-dimensional with a double
  quote inside the lower time value, and two-dimensional.
\<close>

definition envelope_3d :: envelope where
  "envelope_3d =
     \<lparr>srsName = Some ''http://www.opengis.net/def/crs/EPSG/0/4326'',
      srsDimension = Some ''3'', axisLabels = Some ''ansi Lat Long'',
      lowerCorner = Some (Some (CHR 0x22 # ''2020-01-01'' @ CHR 0x22 # '' 10 20'')),
      upperCorner = Some (Some (CHR 0x22 # ''2020-12-31'' @ CHR 0x22 # '' 30 40''))\<rparr>"

definition envelope_inner_quote :: envelope where
  "envelope_inner_quote =
     \<lparr>srsName = Some ''http://www.opengis.net/def/crs/EPSG/0/4326'',
      srsDimension = Some ''3'', axisLabels = Some ''ansi Lat Long'',
      lowerCorner = Some (Some (''2020'' @ CHR 0x22 # ''-01-01 10 20'')),
      upperCorner = Some (Some (''2020-12-31 30 40''))\<rparr>"

definition envelope_2d :: envelope where
  "envelope_2d =
     \<lparr>srsName = Some ''http://www.opengis.net/def/crs/EPSG/0/4326'',
      srsDimension = Some ''2'', axisLabels = Some ''Lat Long'',
      lowerCorner = Some (Some ''10 20''), upperCorner = Some (Some ''30 40'')\<rparr>"

text \<open>An environment whose endpoint cannot be reached.\<close>

definition offline_env :: env where
  "offline_env = sample_env (Inl RemoteError) (Inr [])"

text \<open>A coverage without boxes at an endpoint that describes it by the two-dimensional envelope.\<close>

definition flat_coverage :: content_metadata where
  "flat_coverage = sample_coverage None None (Inr []) []"

definition flat_env :: env where
  "flat_env = sample_env (Inr (sample_service flat_coverage (Inr [envelope_2d]))) (Inr [])"

text \<open>
  A coverage whose \<open>boundingboxes\<close> property raises, at an endpoint that describes it
  by the two-dimensional envelope.
\<close>

definition plane_coverage :: content_metadata where
  "plane_coverage = sample_coverage None None (Inl ValueError) []"

definition plane_env :: env where
  "plane_env = sample_env (Inr (sample_service plane_coverage (Inr [envelope_2d]))) (Inr [])"

text \<open>A coverage whose only bounding-box information is one native box with a URN as SRS.\<close>

definition urn_box :: bbox_dict where
  "urn_box =
     \<lparr>nativeSrs = Some ''urn:ogc:def:crs:EPSG::4326'',
      bbox = Some [1, 2, 3, 4], bbox_temporal_extent = None\<rparr>"

definition urn_coverage :: content_metadata where
  "urn_coverage = sample_coverage None None (Inr [urn_box]) []"

definition urn_env :: env where
  "urn_env = sample_env (Inr (sample_service urn_coverage (Inr []))) (Inr [])"

text \<open>
  Stripping the surrounding double quotes of a string, as the specification words the
  treatment of the time values (this definition follows that wording, not the source,
  which is \<open>remove_char\<close> above): the double quotes at both ends are dropped.
\<close>

definition strip_surrounding_quotes :: "string \<Rightarrow> string" where
  "strip_surrounding_quotes s =
     rev (dropWhile (\<lambda>c. c = CHR 0x22) (rev (dropWhile (\<lambda>c. c = CHR 0x22) s)))"

section \<open>Notions for the proofs about URL normalisation\<close>

text \<open>
  Auxiliary notions, none of them part of the program: the decoded form of an encoded
  query (\<open>plusify\<close>, \<open>dec_item\<close>, \<open>dec_items\<close>), character conditions on the parts of
  a URL (\<open>plain\<close>, \<open>tidy\<close>, \<open>good_item\<close>, \<open>has_scheme\<close>, \<open>wf_parts\<close>), the path
  that \<open>geturl\<close> rebuilds from path and parameters (\<open>tailseg\<close>, \<open>drops_semicolon\<close>,
  \<open>pathstr\<close>), the pieces of the text that \<open>urlunsplit\<close> produces (\<open>uses_slashes\<close>,
  \<open>url_path\<close>, \<open>url_body\<close>, \<open>url_query\<close>, \<open>url_tail\<close>) and the dict that is
  re-encoded (\<open>query_items\<close>).
\<close>

definition plusify :: "string \<Rightarrow> string" where
  "plusify s = map (\<lambda>c. if c = CHR '' '' then CHR ''+'' else c) s"

definition plain :: "string \<Rightarrow> bool" where
  "plain s = (\<forall>c \<in> set s. c \<noteq> CHR ''%'' \<and> c \<noteq> CHR 0x09 \<and> c \<noteq> CHR 0x0D \<and> c \<noteq> CHR 0x0A)"

definition good_item :: "string \<times> string \<Rightarrow> bool" where
  "good_item kv =
     (case kv of (k, v) \<Rightarrow>
        v \<noteq> [] \<and> plain k \<and> plain v
        \<and> CHR ''&'' \<notin> set k \<union> set v \<and> CHR ''+'' \<notin> set k \<union> set v
        \<and> CHR ''#'' \<notin> set k \<union> set v \<and> CHR ''='' \<notin> set k)"

definition dec_item :: "string \<times> string \<Rightarrow> string" where
  "dec_item kv = (case kv of (k, v) \<Rightarrow> plusify k @ ''='' @ plusify v)"

definition dec_items :: "(string \<times> string) list \<Rightarrow> string" where
  "dec_items d = join_with ''&'' (map dec_item d)"

definition tailseg :: "string \<Rightarrow> string" where
  "tailseg x = rev (takeWhile (\<lambda>c. c \<noteq> CHR ''/'') (rev x))"

definition drops_semicolon :: "string \<Rightarrow> string \<Rightarrow> bool" where
  "drops_semicolon sch x =
     (sch \<in> set uses_params \<and> (\<exists>a. tailseg x = a @ '';'' \<and> CHR '';'' \<notin> set a))"

definition pathstr :: "string \<Rightarrow> string \<Rightarrow> string" where
  "pathstr sch x =
     (case (if sch \<in> set uses_params \<and> CHR '';'' \<in> set x then splitparams x else (x, [])) of
        (p, prm) \<Rightarrow> if prm \<noteq> [] then p @ '';'' @ prm else p)"

definition tidy :: "string \<Rightarrow> bool" where
  "tidy s = (\<forall>c \<in> set s. c \<noteq> CHR 0x09 \<and> c \<noteq> CHR 0x0D \<and> c \<noteq> CHR 0x0A)"

definition has_scheme :: "string \<Rightarrow> bool" where
  "has_scheme x =
     (case break_at CHR '':'' x of
        None \<Rightarrow> False
      | Some (a, b) \<Rightarrow> a \<noteq> [] \<and> is_ascii_alpha (hd a) \<and> list_all is_scheme_char a)"

definition wf_parts :: "(string \<Rightarrow> bool) \<Rightarrow> string \<Rightarrow> string \<Rightarrow> string \<Rightarrow> string \<Rightarrow> string \<Rightarrow> bool" where
  "wf_parts bad sch nl x q f =
     ((sch = [] \<or> (is_ascii_alpha (hd sch) \<and> list_all is_scheme_char sch \<and> lower sch = sch))
      \<and> (\<forall>c \<in> set nl. \<not> is_netloc_delim c) \<and> (nl \<noteq> [] \<longrightarrow> \<not> bad nl)
      \<and> (nl \<noteq> [] \<longrightarrow> x = [] \<or> hd x = CHR ''/'')
      \<and> CHR ''?'' \<notin> set x \<and> CHR ''#'' \<notin> set x \<and> CHR ''#'' \<notin> set q
      \<and> tidy nl \<and> tidy x \<and> tidy q \<and> tidy f
      \<and> (sch = [] \<and> nl = [] \<and> x \<noteq> [] \<longrightarrow> 32 < (of_char (hd x) :: nat))
      \<and> (sch = [] \<and> nl = [] \<longrightarrow> \<not> has_scheme x))"

definition uses_slashes :: "string \<Rightarrow> string \<Rightarrow> string \<Rightarrow> bool" where
  "uses_slashes sch nl x =
     (nl \<noteq> [] \<or> (sch \<noteq> [] \<and> sch \<in> set uses_netloc) \<or> take 2 x = ''//'')"

definition url_path :: "string \<Rightarrow> string \<Rightarrow> string \<Rightarrow> string" where
  "url_path sch nl x =
     (if uses_slashes sch nl x \<and> x \<noteq> [] \<and> take 1 x \<noteq> ''/'' then ''/'' @ x else x)"

definition url_body :: "string \<Rightarrow> string \<Rightarrow> string \<Rightarrow> string" where
  "url_body sch nl x =
     (if uses_slashes sch nl x then ''//'' @ nl @ url_path sch nl x else url_path sch nl x)"

definition url_query :: "string \<Rightarrow> string" where
  "url_query q = (if q \<noteq> [] then ''?'' @ q else [])"

definition url_tail :: "string \<Rightarrow> string \<Rightarrow> string" where
  "url_tail q f = url_query q @ (if f \<noteq> [] then ''#'' @ f else [])"

definition query_items :: "string \<Rightarrow> (string \<times> string) list" where
  "query_items q =
     dict_pop (dict_pop (dict_pop (dict_of (parse_qsl q)) ''version'') ''service'') ''request''"

section \<open>Basic facts\<close>

lemma io_catch_total:
  "snd (io_catch (io_bind m (\<lambda>x. io_pure (Inr (f x)))) (\<lambda>e. io_pure (Inr d)))
     = Inr (case snd m of Inl e \<Rightarrow> d | Inr x \<Rightarrow> f x)"
  by (cases m) (auto simp: io_catch_def io_bind_def io_pure_def split: sum.splits prod.splits)

lemma io_catch_log:
  "fst (io_catch (io_bind m (\<lambda>x. io_pure (Inr (f x)))) (\<lambda>e. io_pure (Inr d))) = fst m"
  by (cases m) (auto simp: io_catch_def io_bind_def io_pure_def split: sum.splits prod.splits)

lemma map_result_all_Inr:
  "(\<And>x. x \<in> set xs \<Longrightarrow> f x = Inr (g x)) \<Longrightarrow> map_result f xs = Inr (map g xs)"
  by (induction xs) auto

lemma cleaned_sample:
  "get_cleaned_url_params (\<lambda>n. False) ''http://h/wcs''
     = Inr (''http://h/wcs'', None, ''2.0.1'', None)"
  by code_simp

lemma get_wcs_sample:
  "get_wcs (sample_env (Inr s) rows) ''http://h/wcs''
     = ([GetCapabilities ''http://h/wcs'' ''2.0.1'' 60], Inr s)"
  by (simp add: get_wcs_def get_wcs_service_def sample_env_def cleaned_sample)

section \<open>Availability checks\<close>

text \<open>
  C7: \<open>check_availability\<close> of the harvester and \<open>probe\<close> of the service handler
  always return a boolean, never an exception, and the boolean is true exactly when the
  endpoint responds and advertises at least one coverage: the URL is accepted by
  \<open>get_cleaned_url_params\<close>, the settings have a default OGC server entry, and the
  connection \<open>WebCoverageService\<close> to the cleaned URL, with the version of the URL and
  the timeout of the settings, returns a service whose contents are not empty.  In every
  other case, an exception of the connection included, the result is false.
\<close>

theorem available_iff_endpoint_answers_with_coverage:
  "snd (check_availability E remote_url timeout_seconds)
     = Inr (\<exists>cleaned_url service' version' request' ogc_server_settings wcs.
              get_cleaned_url_params (invalid_netloc E) remote_url
                = Inr (cleaned_url, service', version', request')
              \<and> OGC_SERVER E ''default'' = Some ogc_server_settings
              \<and> WebCoverageService E cleaned_url version'
                    (case ogc_server_settings ''TIMEOUT'' of None \<Rightarrow> 60 | Some t \<Rightarrow> t) = Inr wcs
              \<and> contents wcs \<noteq> [])
   \<and> snd (probe E self_url)
     = Inr (\<exists>cleaned_url service' version' request' ogc_server_settings wcs.
              get_cleaned_url_params (invalid_netloc E) self_url
                = Inr (cleaned_url, service', version', request')
              \<and> OGC_SERVER E ''default'' = Some ogc_server_settings
              \<and> WebCoverageService E cleaned_url version'
                    (case ogc_server_settings ''TIMEOUT'' of None \<Rightarrow> 60 | Some t \<Rightarrow> t) = Inr wcs
              \<and> contents wcs \<noteq> [])"
  unfolding check_availability_def probe_def io_catch_total get_wcs_def get_wcs_service_def
  by (auto simp: Let_def split: sum.splits option.splits prod.splits)

text \<open>
  The theorem at three endpoints: one that advertises two coverages (true), one that
  cannot be reached (false), and one that responds without any coverage (false).
\<close>

theorem available_iff_endpoint_answers_with_coverage_witness:
  "snd (check_availability (sample_env (Inr two_coverages) (Inr [])) ''http://h/wcs'' None) = Inr True
   \<and> snd (probe (sample_env (Inr two_coverages) (Inr [])) ''http://h/wcs'') = Inr True
   \<and> snd (check_availability offline_env ''http://h/wcs'' None) = Inr False
   \<and> snd (probe offline_env ''http://h/wcs'') = Inr False
   \<and> snd (check_availability (sample_env (Inr (two_coverages\<lparr>contents := []\<rparr>)) (Inr []))
             ''http://h/wcs'' (Some 5)) = Inr False
   \<and> snd (probe (sample_env (Inr (two_coverages\<lparr>contents := []\<rparr>)) (Inr [])) ''http://h/wcs'')
       = Inr False"
  using available_iff_endpoint_answers_with_coverage
          [of "sample_env (Inr two_coverages) (Inr [])" "''http://h/wcs''" None "''http://h/wcs''"]
        available_iff_endpoint_answers_with_coverage
          [of offline_env "''http://h/wcs''" None "''http://h/wcs''"]
        available_iff_endpoint_answers_with_coverage
          [of "sample_env (Inr (two_coverages\<lparr>contents := []\<rparr>)) (Inr [])" "''http://h/wcs''"
              "Some 5" "''http://h/wcs''"]
  by (simp add: sample_env_def offline_env_def cleaned_sample two_coverages_def)

text \<open>
  C10: the result of \<open>check_availability\<close> (outcome and requests sent) is the same for
  any two values of \<open>timeout_seconds\<close>; the only request it sends is the connection, and
  the timeout of that connection is the TIMEOUT entry of the OGC_SERVER default settings,
  60 when there is no such entry.
\<close>

theorem check_availability_ignores_timeout:
  "check_availability E remote_url t1 = check_availability E remote_url t2
   \<and> fst (check_availability E remote_url t1) =
       (case get_cleaned_url_params (invalid_netloc E) remote_url of
          Inl e \<Rightarrow> []
        | Inr (cleaned_url, service', version', request') \<Rightarrow>
            (case OGC_SERVER E ''default'' of
               None \<Rightarrow> []
             | Some ogc_server_settings \<Rightarrow>
                 [GetCapabilities cleaned_url version'
                    (case ogc_server_settings ''TIMEOUT'' of None \<Rightarrow> 60 | Some t \<Rightarrow> t)]))"
  unfolding check_availability_def io_catch_log
  by (auto simp: get_wcs_def get_wcs_service_def Let_def split: sum.splits option.splits prod.splits)

section \<open>Listing the resources\<close>

text \<open>
  C6: for every offset other than 0 (also no offset at all) \<open>list_resources\<close> returns
  the empty list without contacting the endpoint.  For offset 0, when the endpoint answers
  and the title and abstract of every coverage can be read, it returns one descriptor per
  entry of the contents, in order: the coverage id as unique identifier, the title or else
  the id, the abstract or else \<open>Not provided\<close>, and the resource type \<open>layers\<close>.
\<close>

theorem list_resources_descriptors:
  "(offset \<noteq> Some 0 \<longrightarrow> list_resources E remote_url offset = ([], Inr []))
   \<and> (snd (get_wcs E remote_url) = Inr wcs
        \<and> (\<forall>(coverage_name, coverage) \<in> set (contents wcs).
              \<exists>t a. title coverage = Inr t \<and> abstract coverage = Inr a)
      \<longrightarrow> snd (list_resources E remote_url (Some 0)) =
            Inr (map (\<lambda>(coverage_name, coverage).
                        \<lparr>unique_identifier = coverage_name,
                         brief_title =
                           (case title coverage of Inr (Some s) \<Rightarrow> s | _ \<Rightarrow> coverage_name),
                         brief_abstract =
                           (case abstract coverage of Inr (Some s) \<Rightarrow> s | _ \<Rightarrow> ''Not provided''),
                         resource_type = ''layers''\<rparr>)
                     (contents wcs)))"
proof (intro conjI impI)
  assume "offset \<noteq> Some 0"
  then show "list_resources E remote_url offset = ([], Inr [])"
    by (simp add: list_resources_def)
next
  assume h: "snd (get_wcs E remote_url) = Inr wcs
        \<and> (\<forall>(coverage_name, coverage) \<in> set (contents wcs).
              \<exists>t a. title coverage = Inr t \<and> abstract coverage = Inr a)"
  let ?g = "\<lambda>(coverage_name, coverage).
                        \<lparr>unique_identifier = coverage_name,
                         brief_title =
                           (case title coverage of Inr (Some s) \<Rightarrow> s | _ \<Rightarrow> coverage_name),
                         brief_abstract =
                           (case abstract coverage of Inr (Some s) \<Rightarrow> s | _ \<Rightarrow> ''Not provided''),
                         resource_type = ''layers''\<rparr>"
  have "map_result brief_resource (contents wcs) = Inr (map ?g (contents wcs))"
  proof (rule map_result_all_Inr)
    fix x assume "x \<in> set (contents wcs)"
    with h obtain t a where "title (snd x) = Inr t" "abstract (snd x) = Inr a"
      by (cases x) auto
    then show "brief_resource x = Inr (?g x)"
      by (cases x) (auto simp: brief_resource_def rbind_def split: option.splits)
  qed
  with h show "snd (list_resources E remote_url (Some 0)) = Inr (map ?g (contents wcs))"
    by (cases "get_wcs E remote_url") (auto simp: list_resources_def io_bind_def io_pure_def)
qed

theorem list_resources_descriptors_witness:
  "list_resources (sample_env (Inr two_coverages) (Inr [])) ''http://h/wcs'' (Some 7) = ([], Inr [])
   \<and> snd (list_resources (sample_env (Inr two_coverages) (Inr [])) ''http://h/wcs'' (Some 0)) =
       Inr [\<lparr>unique_identifier = ''a'', brief_title = ''a'', brief_abstract = ''Not provided'',
             resource_type = ''layers''\<rparr>,
            \<lparr>unique_identifier = ''b'', brief_title = ''B'', brief_abstract = ''about b'',
             resource_type = ''layers''\<rparr>]"
  using list_resources_descriptors
          [of "Some 7" "sample_env (Inr two_coverages) (Inr [])" "''http://h/wcs''" two_coverages]
  by (simp add: get_wcs_sample two_coverages_def sample_coverage_def)

section \<open>Topic category\<close>

lemma filter_hd_find:
  "(case filter P xs of [] \<Rightarrow> None | x # _ \<Rightarrow> Some x) = List.find P xs"
  by (induction xs) auto

lemma get_category_rows:
  "TopicCategory_table E = Inr vocab \<Longrightarrow>
     get_category E k = Inr (List.find (\<lambda>c. category_identifier c = k) vocab)"
  using filter_hd_find[of "\<lambda>c. category_identifier c = k" vocab]
  by (auto simp: get_category_def TopicCategory_filter_def rbind_def nth_err_def
           split: sum.splits list.splits if_splits)

lemma get_category_total: "\<exists>r. get_category E k = Inr r"
  by (auto simp: get_category_def split: sum.splits)

lemma first_category_total: "\<exists>r. first_category E kws = Inr r"
proof (induction kws)
  case Nil
  then show ?case by simp
next
  case (Cons k kws)
  obtain r where "get_category E k = Inr r"
    using get_category_total by blast
  with Cons show ?case
    by (cases r) (auto simp: rbind_def)
qed

lemma first_category_rows:
  "TopicCategory_table E = Inr vocab \<Longrightarrow>
   first_category E kws =
     Inr (case List.find (\<lambda>k. \<exists>c \<in> set vocab. category_identifier c = k) kws of
            None \<Rightarrow> None
          | Some k \<Rightarrow> List.find (\<lambda>c. category_identifier c = k) vocab)"
proof (induction kws)
  case Nil
  then show ?case by simp
next
  case (Cons k kws)
  show ?case
  proof (cases "List.find (\<lambda>c. category_identifier c = k) vocab")
    case None
    then have "\<not> (\<exists>c \<in> set vocab. category_identifier c = k)"
      by (auto simp: find_None_iff)
    with None Cons show ?thesis
      by (simp add: get_category_rows rbind_def)
  next
    case (Some c)
    then have "\<exists>c \<in> set vocab. category_identifier c = k"
      by (auto simp: find_Some_iff)
    with Some Cons show ?thesis
      by (simp add: get_category_rows rbind_def)
  qed
qed

lemma get_metadata_category:
  "snd (get_metadata E remote_url coverage_id) = Inr m \<Longrightarrow>
     first_category E (md_keywords m) = Inr (md_category m)"
  by (cases "get_wcs_content_metadata E remote_url coverage_id")
     (auto simp: get_metadata_def io_bind_def io_pure_def rbind_def Let_def
                 content_record.extend_def
           split: sum.splits prod.splits if_splits)

lemma get_metadata_hydro:
  "get_metadata hydro_env ''http://h/wcs'' ''cov'' =
     ([GetCapabilities ''http://h/wcs'' ''2.0.1'' 60, GetCapabilities ''http://h/wcs'' ''2.0.1'' 60,
       DescribeCoverage (Some ''cov'')],
      Inr hydro_record)"
  unfolding hydro_env_def hydro_record_def
  apply (simp add: get_metadata_def get_wcs_content_metadata_def get_wcs_sample io_bind_def
      io_pure_def sample_service_def hydro_coverage_def sample_coverage_def getattr_default_def
      get_bbox_def has_boundingboxes_def other_boundingboxes_def getOtherBoundingBoxes_def
      choose_bbox_def rbind_def rect_of_def nth_err_def from_bbox_def build_record_def getitem_def
      get_category_def TopicCategory_filter_def content_record.extend_def Let_def)
  apply (simp add: sample_env_def rbind_def nth_err_def)
  done

text \<open>
  C8: the search for the topic category never raises.  The category stored in the record
  that \<open>_get_metadata\<close> returns is the outcome of the search over the record's
  keywords.  When the vocabulary can be read, the outcome is the first vocabulary entry
  whose identifier equals, character by character, the first keyword (in list order) that
  equals the identifier of some entry, and no category when there is no such keyword.
  Against a vocabulary whose entries all have the identifier \<open>Hydrology\<close>, the keywords
  \<open>Hydrology, OtherTag\<close> resolve its first entry and the keyword \<open>hydrology\<close> resolves
  nothing.
\<close>

theorem category_first_exact_match:
  "(\<exists>r. first_category E kws = Inr r)
   \<and> (snd (get_metadata E remote_url coverage_id) = Inr m
        \<longrightarrow> first_category E (md_keywords m) = Inr (md_category m))
   \<and> (TopicCategory_table E = Inr vocab \<longrightarrow>
        first_category E kws =
          Inr (case List.find (\<lambda>k. \<exists>c \<in> set vocab. category_identifier c = k) kws of
                 None \<Rightarrow> None
               | Some k \<Rightarrow> List.find (\<lambda>c. category_identifier c = k) vocab)
        \<and> (vocab \<noteq> [] \<and> (\<forall>c \<in> set vocab. category_identifier c = ''Hydrology'') \<longrightarrow>
             first_category E [''Hydrology'', ''OtherTag''] = Inr (Some (hd vocab))
             \<and> first_category E [''hydrology''] = Inr None))"
proof (intro conjI impI)
  show "\<exists>r. first_category E kws = Inr r"
    by (rule first_category_total)
next
  assume "snd (get_metadata E remote_url coverage_id) = Inr m"
  then show "first_category E (md_keywords m) = Inr (md_category m)"
    by (rule get_metadata_category)
next
  assume "TopicCategory_table E = Inr vocab"
  then show "first_category E kws =
          Inr (case List.find (\<lambda>k. \<exists>c \<in> set vocab. category_identifier c = k) kws of
                 None \<Rightarrow> None
               | Some k \<Rightarrow> List.find (\<lambda>c. category_identifier c = k) vocab)"
    by (rule first_category_rows)
next
  assume t: "TopicCategory_table E = Inr vocab"
    and v: "vocab \<noteq> [] \<and> (\<forall>c \<in> set vocab. category_identifier c = ''Hydrology'')"
  then obtain c cs where vc: "vocab = c # cs"
    by (cases vocab) auto
  with v have "category_identifier c = ''Hydrology''"
    by simp
  then show "first_category E [''Hydrology'', ''OtherTag''] = Inr (Some (hd vocab))"
    by (simp add: get_category_rows[OF t] rbind_def vc)
next
  assume t: "TopicCategory_table E = Inr vocab"
    and v: "vocab \<noteq> [] \<and> (\<forall>c \<in> set vocab. category_identifier c = ''Hydrology'')"
  then have "List.find (\<lambda>c. category_identifier c = ''hydrology'') vocab = None"
    by (auto simp: find_None_iff)
  then show "first_category E [''hydrology''] = Inr None"
    by (simp add: get_category_rows[OF t] rbind_def)
qed

theorem category_first_exact_match_witness:
  "snd (get_metadata hydro_env ''http://h/wcs'' ''cov'') = Inr hydro_record
   \<and> TopicCategory_table hydro_env = Inr [\<lparr>category_identifier = ''Hydrology''\<rparr>]
   \<and> first_category hydro_env (md_keywords hydro_record)
       = Inr (Some \<lparr>category_identifier = ''Hydrology''\<rparr>)
   \<and> md_category hydro_record = Some \<lparr>category_identifier = ''Hydrology''\<rparr>
   \<and> first_category hydro_env [''hydrology''] = Inr None"
  using category_first_exact_match
          [of hydro_env "[''Hydrology'', ''OtherTag'']" "''http://h/wcs''" "''cov''" hydro_record
              "[\<lparr>category_identifier = ''Hydrology''\<rparr>]"]
  by (simp add: get_metadata_hydro)
     (simp add: hydro_env_def hydro_record_def sample_env_def)

section \<open>Bounding-box resolution\<close>

lemma split_on_nonempty: "split_on c s \<noteq> []"
  by (induction s) (auto split: list.splits)

lemma split_on_append: "split_on c (p @ c # q) = split_on c p @ split_on c q"
proof (induction p)
  case Nil
  then show ?case by simp
next
  case (Cons x p)
  then show ?case
    using split_on_nonempty[of c p] by (cases "split_on c p") auto
qed


lemma crs_of_srs_epsg: "crs_of_srs (p @ ''/EPSG/0/4326'') = Inr ''EPSG:4326''"
proof -
  have "split_on CHR ''/'' (p @ CHR ''/'' # ''EPSG/0/4326'')
          = split_on CHR ''/'' p @ [''EPSG'', ''0'', ''4326'']"
    by (simp add: split_on_append)
  then show ?thesis
    by (simp add: crs_of_srs_def rbind_def nth_neg_def nth_append)
qed

lemma choose_bbox_native:
  assumes "boundingBox c = Inr None \<or> boundingBox c = Inr (Some [])"
    and "boundingBoxWGS84 c = Inr None \<or> boundingBoxWGS84 c = Inr (Some [])"
  shows "choose_bbox c has other =
           (if has then rbind (boundingboxes c) native_result
            else if other \<noteq> [] then other_result other else Inr default_result)"
  using assms by (auto simp: choose_bbox_def rbind_def)

lemma get_bbox_snd:
  "snd (get_bbox E u c) = choose_bbox c (has_boundingboxes c) (snd (other_boundingboxes E u c))"
  by (simp add: get_bbox_def Let_def split: prod.splits)

lemma get_bbox_fst: "fst (get_bbox E u c) = fst (other_boundingboxes E u c)"
  by (simp add: get_bbox_def Let_def split: prod.splits)

lemma native_result_Inr:
  "native_result (b # bs) = Inr r \<Longrightarrow>
     \<exists>s srs k. bbox b = Some s \<and> 4 \<le> length s \<and> nativeSrs b = Some srs \<and> crs_of_srs srs = Inr k
       \<and> r = \<lparr>crs = Some k, temporal_extent = None,
              spatial_extent = from_bbox (s ! 0, s ! 1, s ! 2, s ! 3)\<rparr>"
  by (auto simp: native_result_def native_rect_def native_crs_def rect_of_def rbind_def
        nth_err_def getitem_def split: option.splits if_splits sum.splits)

lemma other_result_Inr:
  "other_result (b # bs) = Inr r \<Longrightarrow>
     \<exists>s srs k t. bbox b = Some s \<and> 4 \<le> length s \<and> nativeSrs b = Some srs \<and> crs_of_srs srs = Inr k
       \<and> bbox_temporal_extent b = Some t
       \<and> r = \<lparr>crs = Some k, temporal_extent = Some t,
              spatial_extent = from_bbox (s ! 0, s ! 1, s ! 2, s ! 3)\<rparr>"
  by (auto simp: other_result_def native_rect_def native_crs_def rect_of_def rbind_def
        nth_err_def getitem_def split: option.splits if_splits sum.splits)



lemma other_sample:
  "other_boundingboxes (sample_env (Inr (sample_service c0 (Inr []))) rows) ''http://h/wcs''
       (sample_coverage bb wgs boxes kws)
     = ([GetCapabilities ''http://h/wcs'' ''2.0.1'' 60, DescribeCoverage (Some ''cov'')], [])"
  by (simp add: other_boundingboxes_def getOtherBoundingBoxes_def get_wcs_sample io_bind_def
        sample_coverage_def sample_service_def)



lemma rect_of_Inr:
  "rect_of s = Inr q \<Longrightarrow> 4 \<le> length s \<and> q = (s ! 0, s ! 1, s ! 2, s ! 3)"
  by (auto simp: rect_of_def rbind_def nth_err_def split: if_splits)

lemma choose_bbox_primary:
  "boundingBox c = Inr (Some s) \<Longrightarrow> s \<noteq> [] \<Longrightarrow> choose_bbox c has other = Inr r \<Longrightarrow>
     4 \<le> length s
     \<and> r = \<lparr>crs = None, temporal_extent = None,
            spatial_extent = from_bbox (s ! 0, s ! 1, s ! 2, s ! 3)\<rparr>"
  by (cases s) (auto simp: choose_bbox_def rbind_def split: sum.splits dest!: rect_of_Inr)

lemma choose_bbox_wgs:
  "boundingBox c = Inr None \<or> boundingBox c = Inr (Some []) \<Longrightarrow>
   boundingBoxWGS84 c = Inr (Some s) \<Longrightarrow> s \<noteq> [] \<Longrightarrow> choose_bbox c has other = Inr r \<Longrightarrow>
     4 \<le> length s
     \<and> r = \<lparr>crs = Some ''EPSG:4326'', temporal_extent = None,
            spatial_extent = from_bbox (s ! 0, s ! 1, s ! 2, s ! 3)\<rparr>"
  by (cases s) (auto simp: choose_bbox_def rbind_def split: sum.splits dest!: rect_of_Inr)

lemma describe_requested:
  "cov_id c = Inr cid \<Longrightarrow> snd (get_wcs E u) = Inr wcs \<Longrightarrow>
     DescribeCoverage cid \<in> set (fst (other_boundingboxes E u c))"
  by (cases "get_wcs E u")
     (auto simp: other_boundingboxes_def getOtherBoundingBoxes_def io_bind_def
           split: sum.splits prod.splits)

text \<open>
  When no source yields anything (primary and WGS84 box empty or None, no
  \<open>boundingboxes\<close> entry, no box from the describe-coverage document), \<open>_get_bbox\<close>
  returns the ring of the rectangle \<open>-180, -90, 180, 90\<close> with CRS \<open>EPSG:4326\<close> and no
  temporal extent.
\<close>

lemma get_bbox_default:
  assumes "boundingBox c = Inr None \<or> boundingBox c = Inr (Some [])"
    and "boundingBoxWGS84 c = Inr None \<or> boundingBoxWGS84 c = Inr (Some [])"
    and "\<not> has_boundingboxes c"
    and "snd (other_boundingboxes E remote_url c) = []"
  shows "snd (get_bbox E remote_url c) =
           Inr \<lparr>crs = Some ''EPSG:4326'', temporal_extent = None,
                spatial_extent =
                  [(-180, -90), (180, -90), (180, 90), (-180, 90), (-180, -90)]\<rparr>"
  using assms
  by (auto simp: get_bbox_def Let_def choose_bbox_def rbind_def default_result_def from_bbox_def
        split: prod.splits)

lemma get_bbox_hydro:
  "get_bbox hydro_env ''http://h/wcs'' hydro_coverage =
     ([GetCapabilities ''http://h/wcs'' ''2.0.1'' 60, DescribeCoverage (Some ''cov'')],
      Inr \<lparr>crs = Some ''EPSG:4326'', temporal_extent = None,
           spatial_extent = [(10, 20), (30, 20), (30, 40), (10, 40), (10, 20)]\<rparr>)"
  unfolding get_bbox_def hydro_env_def hydro_coverage_def other_sample
  by (simp add: has_boundingboxes_def choose_bbox_def rbind_def rect_of_def nth_err_def
        from_bbox_def sample_coverage_def)

text \<open>
  C1, as stated, fails: for a coverage whose WGS84 box yields the extent (the second
  source), the describe-coverage request of the fourth source is sent all the same.
\<close>

theorem describe_coverage_sent_despite_wgs84_box:
  "boundingBox hydro_coverage = Inr None
   \<and> boundingBoxWGS84 hydro_coverage = Inr (Some [10, 20, 30, 40])
   \<and> snd (get_bbox hydro_env ''http://h/wcs'' hydro_coverage) =
        Inr \<lparr>crs = Some ''EPSG:4326'', temporal_extent = None,
             spatial_extent = [(10, 20), (30, 20), (30, 40), (10, 40), (10, 20)]\<rparr>
   \<and> DescribeCoverage (Some ''cov'') \<in> set (fst (get_bbox hydro_env ''http://h/wcs'' hydro_coverage))"
  by (simp add: get_bbox_hydro) (simp add: hydro_coverage_def sample_coverage_def)

text \<open>
  C1, amended: whenever \<open>_get_bbox\<close> returns, the extent is the one of the first source,
  in the order primary box, WGS84 box, first entry of \<open>boundingboxes\<close>, first box parsed
  from the describe-coverage envelopes, whole globe, that yields a value; a later source
  is used only if every earlier one yielded nothing.  The sources are not attempted
  lazily: the describe-coverage request is sent for every coverage whose id can be read,
  once the connection succeeds, whatever the earlier sources yield.
\<close>

theorem bbox_priority_order:
  assumes ret: "snd (get_bbox E remote_url c) = Inr r"
  shows
    "(\<forall>s. boundingBox c = Inr (Some s) \<and> s \<noteq> [] \<longrightarrow>
          4 \<le> length s
          \<and> r = \<lparr>crs = None, temporal_extent = None,
                 spatial_extent = from_bbox (s ! 0, s ! 1, s ! 2, s ! 3)\<rparr>)
     \<and> (boundingBox c = Inr None \<or> boundingBox c = Inr (Some []) \<longrightarrow>
          (\<forall>s. boundingBoxWGS84 c = Inr (Some s) \<and> s \<noteq> [] \<longrightarrow>
              4 \<le> length s
              \<and> r = \<lparr>crs = Some ''EPSG:4326'', temporal_extent = None,
                     spatial_extent = from_bbox (s ! 0, s ! 1, s ! 2, s ! 3)\<rparr>)
        \<and> (boundingBoxWGS84 c = Inr None \<or> boundingBoxWGS84 c = Inr (Some []) \<longrightarrow>
             (\<forall>b bs. boundingboxes c = Inr (b # bs) \<longrightarrow>
                (\<exists>s srs k. bbox b = Some s \<and> 4 \<le> length s \<and> nativeSrs b = Some srs
                   \<and> crs_of_srs srs = Inr k
                   \<and> r = \<lparr>crs = Some k, temporal_extent = None,
                          spatial_extent = from_bbox (s ! 0, s ! 1, s ! 2, s ! 3)\<rparr>))
           \<and> (\<not> has_boundingboxes c \<longrightarrow>
                (\<forall>b bs. snd (other_boundingboxes E remote_url c) = b # bs \<longrightarrow>
                   (\<exists>s srs k t. bbox b = Some s \<and> 4 \<le> length s \<and> nativeSrs b = Some srs
                      \<and> crs_of_srs srs = Inr k \<and> bbox_temporal_extent b = Some t
                      \<and> r = \<lparr>crs = Some k, temporal_extent = Some t,
                             spatial_extent = from_bbox (s ! 0, s ! 1, s ! 2, s ! 3)\<rparr>))
              \<and> (snd (other_boundingboxes E remote_url c) = [] \<longrightarrow> r = default_result))))
     \<and> (\<forall>cid wcs. cov_id c = Inr cid \<and> snd (get_wcs E remote_url) = Inr wcs \<longrightarrow>
          DescribeCoverage cid \<in> set (fst (get_bbox E remote_url c)))"
proof -
  let ?o = "snd (other_boundingboxes E remote_url c)"
  from ret have ch: "choose_bbox c (has_boundingboxes c) ?o = Inr r"
    by (simp add: get_bbox_snd)
  have p1: "\<forall>s. boundingBox c = Inr (Some s) \<and> s \<noteq> [] \<longrightarrow>
          4 \<le> length s
          \<and> r = \<lparr>crs = None, temporal_extent = None,
                 spatial_extent = from_bbox (s ! 0, s ! 1, s ! 2, s ! 3)\<rparr>"
    using choose_bbox_primary[OF _ _ ch] by blast
  have p2: "boundingBox c = Inr None \<or> boundingBox c = Inr (Some []) \<Longrightarrow>
          \<forall>s. boundingBoxWGS84 c = Inr (Some s) \<and> s \<noteq> [] \<longrightarrow>
              4 \<le> length s
              \<and> r = \<lparr>crs = Some ''EPSG:4326'', temporal_extent = None,
                     spatial_extent = from_bbox (s ! 0, s ! 1, s ! 2, s ! 3)\<rparr>"
    using choose_bbox_wgs[OF _ _ _ ch] by blast
  have p3: "\<exists>s srs k. bbox b = Some s \<and> 4 \<le> length s \<and> nativeSrs b = Some srs
                   \<and> crs_of_srs srs = Inr k
                   \<and> r = \<lparr>crs = Some k, temporal_extent = None,
                          spatial_extent = from_bbox (s ! 0, s ! 1, s ! 2, s ! 3)\<rparr>"
    if "boundingBox c = Inr None \<or> boundingBox c = Inr (Some [])"
      and "boundingBoxWGS84 c = Inr None \<or> boundingBoxWGS84 c = Inr (Some [])"
      and "boundingboxes c = Inr (b # bs)" for b bs
  proof -
    from that(3) have "has_boundingboxes c" by (simp add: has_boundingboxes_def)
    with ch that have "native_result (b # bs) = Inr r"
      by (simp add: choose_bbox_native rbind_def)
    then show ?thesis by (rule native_result_Inr)
  qed
  have p4: "\<exists>s srs k t. bbox b = Some s \<and> 4 \<le> length s \<and> nativeSrs b = Some srs
                      \<and> crs_of_srs srs = Inr k \<and> bbox_temporal_extent b = Some t
                      \<and> r = \<lparr>crs = Some k, temporal_extent = Some t,
                             spatial_extent = from_bbox (s ! 0, s ! 1, s ! 2, s ! 3)\<rparr>"
    if "boundingBox c = Inr None \<or> boundingBox c = Inr (Some [])"
      and "boundingBoxWGS84 c = Inr None \<or> boundingBoxWGS84 c = Inr (Some [])"
      and "\<not> has_boundingboxes c" and "?o = b # bs" for b bs
  proof -
    from ch that have "other_result (b # bs) = Inr r"
      by (simp add: choose_bbox_native)
    then show ?thesis by (rule other_result_Inr)
  qed
  have p5: "r = default_result"
    if "boundingBox c = Inr None \<or> boundingBox c = Inr (Some [])"
      and "boundingBoxWGS84 c = Inr None \<or> boundingBoxWGS84 c = Inr (Some [])"
      and "\<not> has_boundingboxes c" and "?o = []"
    using ch that by (simp add: choose_bbox_native)
  have p6: "\<forall>cid wcs. cov_id c = Inr cid \<and> snd (get_wcs E remote_url) = Inr wcs \<longrightarrow>
          DescribeCoverage cid \<in> set (fst (get_bbox E remote_url c))"
    using describe_requested by (auto simp: get_bbox_fst)
  from p1 p2 p3 p4 p5 p6 show ?thesis by blast
qed

theorem bbox_priority_order_witness:
  "snd (get_bbox hydro_env ''http://h/wcs'' hydro_coverage) =
        Inr \<lparr>crs = Some ''EPSG:4326'', temporal_extent = None,
             spatial_extent = [(10, 20), (30, 20), (30, 40), (10, 40), (10, 20)]\<rparr>
   \<and> boundingBox hydro_coverage = Inr None
   \<and> boundingBoxWGS84 hydro_coverage = Inr (Some [10, 20, 30, 40])
   \<and> \<lparr>crs = Some ''EPSG:4326'', temporal_extent = None,
             spatial_extent = [(10, 20), (30, 20), (30, 40), (10, 40), (10, 20)]\<rparr>
       = \<lparr>crs = Some ''EPSG:4326'', temporal_extent = None,
          spatial_extent = from_bbox ([10, 20, 30, 40] ! 0, [10, 20, 30, 40] ! 1,
                                      [10, 20, 30, 40] ! 2, [10, 20, 30, 40] ! 3)\<rparr>
   \<and> cov_id hydro_coverage = Inr (Some ''cov'')
   \<and> snd (get_wcs hydro_env ''http://h/wcs'') = Inr (sample_service hydro_coverage (Inr []))
   \<and> DescribeCoverage (Some ''cov'') \<in> set (fst (get_bbox hydro_env ''http://h/wcs'' hydro_coverage))"
proof -
  have r: "snd (get_bbox hydro_env ''http://h/wcs'' hydro_coverage) =
        Inr \<lparr>crs = Some ''EPSG:4326'', temporal_extent = None,
             spatial_extent = [(10, 20), (30, 20), (30, 40), (10, 40), (10, 20)]\<rparr>"
    by (simp add: get_bbox_hydro)
  have a: "boundingBox hydro_coverage = Inr None"
    "boundingBoxWGS84 hydro_coverage = Inr (Some [10, 20, 30, 40])"
    "cov_id hydro_coverage = Inr (Some ''cov'')"
    by (simp_all add: hydro_coverage_def sample_coverage_def)
  have w: "snd (get_wcs hydro_env ''http://h/wcs'') = Inr (sample_service hydro_coverage (Inr []))"
    by (simp add: hydro_env_def get_wcs_sample)
  from bbox_priority_order[OF r] a w r show ?thesis
    by (simp add: from_bbox_def)
qed

section \<open>Envelopes of the describe-coverage document\<close>

lemma dec_simps:
  "dec_int ''3'' = Some 3" "dec_int ''2'' = Some 2"
  "dec_float ''10'' = Some 10" "dec_float ''20'' = Some 20"
  "dec_float ''30'' = Some 30" "dec_float ''40'' = Some 40"
  by (simp_all add: dec_int_def dec_float_def)

lemma envelope_bbox_3:
  assumes "3 \<le> length labels" "3 \<le> length lc" "3 \<le> length uc"
    and "py_float E (lc ! 1) = Some l1" "py_float E (lc ! 2) = Some l2"
    and "py_float E (uc ! 1) = Some u1" "py_float E (uc ! 2) = Some u2"
  shows "envelope_bbox E srs 3 labels lc uc =
           Inr \<lparr>nativeSrs = Some srs,
                bbox = Some (if labels ! 1 \<in> set y_labels \<and> labels ! 2 \<in> set x_labels
                             then [l2, l1, u2, u1] else [l1, l2, u1, u2]),
                bbox_temporal_extent =
                  Some (remove_char (CHR 0x22) (lc ! 0), remove_char (CHR 0x22) (uc ! 0))\<rparr>"
proof -
  have n: "nth_err labels (Suc 0) = Inr (labels ! 1)" "nth_err labels 2 = Inr (labels ! 2)"
    "nth_err lc 0 = Inr (lc ! 0)" "nth_err lc (Suc 0) = Inr (lc ! 1)" "nth_err lc 2 = Inr (lc ! 2)"
    "nth_err uc 0 = Inr (uc ! 0)" "nth_err uc (Suc 0) = Inr (uc ! 1)" "nth_err uc 2 = Inr (uc ! 2)"
    using assms(1-3) by (auto simp: nth_err_def)
  show ?thesis
    using assms(4-7)
    by (simp add: envelope_bbox_def lat_lon_order_def rbind_def tuple4_def float_at_def n)
qed

lemma tokens_3d:
  "split_ws (lower ''ansi Lat Long'') = [''ansi'', ''lat'', ''long'']"
  "split_ws (CHR 0x22 # ''2020-01-01'' @ CHR 0x22 # '' 10 20'')
     = [CHR 0x22 # ''2020-01-01'' @ [CHR 0x22], ''10'', ''20'']"
  "split_ws (CHR 0x22 # ''2020-12-31'' @ CHR 0x22 # '' 30 40'')
     = [CHR 0x22 # ''2020-12-31'' @ [CHR 0x22], ''30'', ''40'']"
  by code_simp+

lemma tokens_inner:
  "split_ws (''2020'' @ CHR 0x22 # ''-01-01 10 20'') = [''2020'' @ CHR 0x22 # ''-01-01'', ''10'', ''20'']"
  "split_ws ''2020-12-31 30 40'' = [''2020-12-31'', ''30'', ''40'']"
  by code_simp+

lemma parse_inner:
  "parse_envelope offline_env envelope_inner_quote =
     Inr \<lparr>nativeSrs = Some ''http://www.opengis.net/def/crs/EPSG/0/4326'',
          bbox = Some [20, 10, 40, 30],
          bbox_temporal_extent = Some (''2020-01-01'', ''2020-12-31'')\<rparr>"
proof -
  have "parse_envelope offline_env envelope_inner_quote =
          envelope_bbox offline_env ''http://www.opengis.net/def/crs/EPSG/0/4326'' 3
            (split_ws (lower ''ansi Lat Long''))
            (split_ws (''2020'' @ CHR 0x22 # ''-01-01 10 20'')) (split_ws ''2020-12-31 30 40'')"
    by (simp add: parse_envelope_def envelope_inner_quote_def offline_env_def sample_env_def
          rbind_def getitem_def int_of_def corner_tokens_def dec_simps)
  also have "\<dots> = Inr \<lparr>nativeSrs = Some ''http://www.opengis.net/def/crs/EPSG/0/4326'',
          bbox = Some [20, 10, 40, 30],
          bbox_temporal_extent = Some (''2020-01-01'', ''2020-12-31'')\<rparr>"
    unfolding tokens_inner tokens_3d
    by (simp add: envelope_bbox_def lat_lon_order_def nth_err_def y_labels_def x_labels_def
          tuple4_def float_at_def remove_char_def rbind_def offline_env_def sample_env_def dec_simps)
  finally show ?thesis .
qed

text \<open>
  C2, as stated, fails: a lower time value with a double quote in its interior and none
  around it is unchanged by stripping surrounding quotes, but the temporal extent parsed
  from the envelope has the quote removed.
\<close>

theorem inner_quote_removed_counterexample:
  "lowerCorner envelope_inner_quote = Some (Some (''2020'' @ CHR 0x22 # ''-01-01 10 20''))
   \<and> split_ws (''2020'' @ CHR 0x22 # ''-01-01 10 20'') ! 0 = ''2020'' @ CHR 0x22 # ''-01-01''
   \<and> strip_surrounding_quotes (''2020'' @ CHR 0x22 # ''-01-01'') = ''2020'' @ CHR 0x22 # ''-01-01''
   \<and> parse_envelope offline_env envelope_inner_quote =
       Inr \<lparr>nativeSrs = Some ''http://www.opengis.net/def/crs/EPSG/0/4326'',
            bbox = Some [20, 10, 40, 30],
            bbox_temporal_extent = Some (''2020-01-01'', ''2020-12-31'')\<rparr>
   \<and> ''2020-01-01'' \<noteq> strip_surrounding_quotes (''2020'' @ CHR 0x22 # ''-01-01'')"
  unfolding tokens_inner parse_inner
  by (simp add: strip_surrounding_quotes_def envelope_inner_quote_def)

text \<open>
  C2, amended: for every envelope with \<open>srsDimension\<close> 3 that has its attributes and
  corners, at least three axis labels and three tokens in each corner, and numeric second
  and third tokens, the first axis is the time: the first tokens of the two corners with
  every double-quote character removed are the temporal extent, and the rectangle is built
  from the second and third tokens, in swapped order exactly when the second label
  (lower-cased) is one of latitude, lat, n, s, y and the third one of longitude, lon, long,
  e, w, x.  For the labels ansi, lat, long and the corners \<open>"2020-01-01" 10 20\<close> and
  \<open>"2020-12-31" 30 40\<close> the rectangle is \<open>(20, 10, 40, 30)\<close> and the temporal extent
  \<open>(2020-01-01, 2020-12-31)\<close>.
\<close>

theorem envelope_3d_time_first:
  assumes "srsName envelope = Some srs"
    and "srsDimension envelope = Some d" and "py_int E d = Some 3"
    and "axisLabels envelope = Some al"
    and "lowerCorner envelope = Some (Some lower_text)"
    and "upperCorner envelope = Some (Some upper_text)"
    and "3 \<le> length (split_ws (lower al))"
    and "3 \<le> length (split_ws lower_text)" and "3 \<le> length (split_ws upper_text)"
    and "py_float E (split_ws lower_text ! 1) = Some l1"
    and "py_float E (split_ws lower_text ! 2) = Some l2"
    and "py_float E (split_ws upper_text ! 1) = Some u1"
    and "py_float E (split_ws upper_text ! 2) = Some u2"
  shows "parse_envelope E envelope =
           Inr \<lparr>nativeSrs = Some srs,
                bbox = Some (if split_ws (lower al) ! 1 \<in> set y_labels
                                \<and> split_ws (lower al) ! 2 \<in> set x_labels
                             then [l2, l1, u2, u1] else [l1, l2, u1, u2]),
                bbox_temporal_extent =
                  Some (remove_char (CHR 0x22) (split_ws lower_text ! 0),
                        remove_char (CHR 0x22) (split_ws upper_text ! 0))\<rparr>
         \<and> (split_ws (lower al) = [''ansi'', ''lat'', ''long'']
              \<and> split_ws lower_text = [CHR 0x22 # ''2020-01-01'' @ [CHR 0x22], ''10'', ''20'']
              \<and> split_ws upper_text = [CHR 0x22 # ''2020-12-31'' @ [CHR 0x22], ''30'', ''40'']
              \<and> l1 = 10 \<and> l2 = 20 \<and> u1 = 30 \<and> u2 = 40
            \<longrightarrow> parse_envelope E envelope =
                  Inr \<lparr>nativeSrs = Some srs, bbox = Some [20, 10, 40, 30],
                       bbox_temporal_extent = Some (''2020-01-01'', ''2020-12-31'')\<rparr>)"
proof -
  have p: "parse_envelope E envelope =
             envelope_bbox E srs 3 (split_ws (lower al)) (split_ws lower_text) (split_ws upper_text)"
    using assms(1-6)
    by (simp add: parse_envelope_def rbind_def getitem_def int_of_def corner_tokens_def)
  have g: "parse_envelope E envelope =
           Inr \<lparr>nativeSrs = Some srs,
                bbox = Some (if split_ws (lower al) ! 1 \<in> set y_labels
                                \<and> split_ws (lower al) ! 2 \<in> set x_labels
                             then [l2, l1, u2, u1] else [l1, l2, u1, u2]),
                bbox_temporal_extent =
                  Some (remove_char (CHR 0x22) (split_ws lower_text ! 0),
                        remove_char (CHR 0x22) (split_ws upper_text ! 0))\<rparr>"
    unfolding p by (rule envelope_bbox_3) (use assms in auto)
  show ?thesis
  proof (intro conjI impI)
    show "parse_envelope E envelope =
           Inr \<lparr>nativeSrs = Some srs,
                bbox = Some (if split_ws (lower al) ! 1 \<in> set y_labels
                                \<and> split_ws (lower al) ! 2 \<in> set x_labels
                             then [l2, l1, u2, u1] else [l1, l2, u1, u2]),
                bbox_temporal_extent =
                  Some (remove_char (CHR 0x22) (split_ws lower_text ! 0),
                        remove_char (CHR 0x22) (split_ws upper_text ! 0))\<rparr>"
      by (rule g)
  next
    assume "split_ws (lower al) = [''ansi'', ''lat'', ''long'']
              \<and> split_ws lower_text = [CHR 0x22 # ''2020-01-01'' @ [CHR 0x22], ''10'', ''20'']
              \<and> split_ws upper_text = [CHR 0x22 # ''2020-12-31'' @ [CHR 0x22], ''30'', ''40'']
              \<and> l1 = 10 \<and> l2 = 20 \<and> u1 = 30 \<and> u2 = 40"
    then show "parse_envelope E envelope =
                  Inr \<lparr>nativeSrs = Some srs, bbox = Some [20, 10, 40, 30],
                       bbox_temporal_extent = Some (''2020-01-01'', ''2020-12-31'')\<rparr>"
      unfolding g by (simp add: y_labels_def x_labels_def remove_char_def)
  qed
qed

theorem envelope_3d_time_first_witness:
  "parse_envelope offline_env envelope_3d =
     Inr \<lparr>nativeSrs = Some ''http://www.opengis.net/def/crs/EPSG/0/4326'',
          bbox = Some [20, 10, 40, 30],
          bbox_temporal_extent = Some (''2020-01-01'', ''2020-12-31'')\<rparr>"
  using envelope_3d_time_first
          [of envelope_3d "''http://www.opengis.net/def/crs/EPSG/0/4326''" "''3''" offline_env
              "''ansi Lat Long''"
              "CHR 0x22 # ''2020-01-01'' @ CHR 0x22 # '' 10 20''"
              "CHR 0x22 # ''2020-12-31'' @ CHR 0x22 # '' 30 40''" 10 20 30 40]
  unfolding tokens_3d
  by (simp add: envelope_3d_def offline_env_def sample_env_def dec_simps y_labels_def x_labels_def
        remove_char_def)

section \<open>Exceptions that reach the caller\<close>

lemma get_bbox_primary:
  "get_bbox primary_env ''http://h/wcs'' primary_coverage =
     ([GetCapabilities ''http://h/wcs'' ''2.0.1'' 60, DescribeCoverage (Some ''cov'')],
      Inr \<lparr>crs = None, temporal_extent = None,
           spatial_extent = [(10, 20), (30, 20), (30, 40), (10, 40), (10, 20)]\<rparr>)"
  unfolding get_bbox_def primary_env_def primary_coverage_def other_sample
  by (simp add: has_boundingboxes_def choose_bbox_def rbind_def rect_of_def nth_err_def
        from_bbox_def sample_coverage_def)

lemma tokens_2d:
  "split_ws (lower ''Lat Long'') = [''lat'', ''long'']"
  "split_ws ''10 20'' = [''10'', ''20'']" "split_ws ''30 40'' = [''30'', ''40'']"
  by code_simp+

lemma parse_2d:
  "parse_envelope (sample_env a rows) envelope_2d =
     Inr \<lparr>nativeSrs = Some ''http://www.opengis.net/def/crs/EPSG/0/4326'',
          bbox = Some [20, 10, 40, 30], bbox_temporal_extent = None\<rparr>"
proof -
  have "parse_envelope (sample_env a rows) envelope_2d =
          envelope_bbox (sample_env a rows) ''http://www.opengis.net/def/crs/EPSG/0/4326'' 2
            (split_ws (lower ''Lat Long'')) (split_ws ''10 20'') (split_ws ''30 40'')"
    by (simp add: parse_envelope_def envelope_2d_def sample_env_def
          rbind_def getitem_def int_of_def corner_tokens_def dec_simps)
  also have "\<dots> = Inr \<lparr>nativeSrs = Some ''http://www.opengis.net/def/crs/EPSG/0/4326'',
          bbox = Some [20, 10, 40, 30], bbox_temporal_extent = None\<rparr>"
    unfolding tokens_2d
    by (simp add: envelope_bbox_def lat_lon_order_def nth_err_def y_labels_def x_labels_def
          tuple4_def float_at_def rbind_def sample_env_def dec_simps)
  finally show ?thesis .
qed

lemma other_flat:
  "other_boundingboxes flat_env ''http://h/wcs'' flat_coverage =
     ([GetCapabilities ''http://h/wcs'' ''2.0.1'' 60, DescribeCoverage (Some ''cov'')],
      [\<lparr>nativeSrs = Some ''http://www.opengis.net/def/crs/EPSG/0/4326'',
          bbox = Some [20, 10, 40, 30], bbox_temporal_extent = None\<rparr>])"
  unfolding flat_env_def
  by (simp add: other_boundingboxes_def getOtherBoundingBoxes_def get_wcs_sample io_bind_def
        flat_coverage_def sample_coverage_def sample_service_def parse_2d)

lemma crs_sample: "crs_of_srs ''http://www.opengis.net/def/crs/EPSG/0/4326'' = Inr ''EPSG:4326''"
  using crs_of_srs_epsg[of "''http://www.opengis.net/def/crs''"] by simp

lemma content_metadata_sample:
  "snd (get_wcs_content_metadata (sample_env (Inr (sample_service c d)) rows) ''http://h/wcs'' ''cov'')
     = (case getattr_default (cov_id c) None of
          Inl e \<Rightarrow> Inl e
        | Inr None \<Rightarrow> Inl (Exception ''Coverage has no id'')
        | Inr (Some name) \<Rightarrow>
            rbind (snd (get_bbox (sample_env (Inr (sample_service c d)) rows) ''http://h/wcs'' c))
              (build_record (sample_service c d) name c))"
  by (simp add: get_wcs_content_metadata_def get_wcs_sample io_bind_def io_pure_def
        sample_service_def split: sum.splits option.splits prod.splits)

text \<open>
  C3: the code at inputs where the claim promises a result.  With the primary bounding
  box set, \<open>_get_bbox\<close> returns a dict without the key \<open>crs\<close> and
  \<open>_get_wcs_content_metadata\<close> raises KeyError; with a two-dimensional envelope as the
  only source, \<open>_get_bbox\<close> raises KeyError; with the attribute \<open>boundingBox\<close>
  missing, it raises AttributeError.
\<close>

theorem record_raises_on_primary_box:
  "boundingBox primary_coverage = Inr (Some [10, 20, 30, 40])
   \<and> snd (get_bbox primary_env ''http://h/wcs'' primary_coverage) =
        Inr \<lparr>crs = None, temporal_extent = None,
             spatial_extent = [(10, 20), (30, 20), (30, 40), (10, 40), (10, 20)]\<rparr>
   \<and> snd (get_wcs_content_metadata primary_env ''http://h/wcs'' ''cov'') = Inl KeyError
   \<and> snd (get_bbox flat_env ''http://h/wcs'' flat_coverage) = Inl KeyError
   \<and> snd (get_bbox bare_env ''http://h/wcs'' (bare_coverage\<lparr>boundingBox := Inl AttributeError\<rparr>))
        = Inl AttributeError"
proof (intro conjI)
  show "boundingBox primary_coverage = Inr (Some [10, 20, 30, 40])"
    by (simp add: primary_coverage_def sample_coverage_def)
  show "snd (get_bbox primary_env ''http://h/wcs'' primary_coverage) =
        Inr \<lparr>crs = None, temporal_extent = None,
             spatial_extent = [(10, 20), (30, 20), (30, 40), (10, 40), (10, 20)]\<rparr>"
    by (simp add: get_bbox_primary)
  have "snd (get_wcs_content_metadata primary_env ''http://h/wcs'' ''cov'') =
          rbind (snd (get_bbox primary_env ''http://h/wcs'' primary_coverage))
            (build_record (sample_service primary_coverage (Inr [])) ''cov'' primary_coverage)"
    unfolding primary_env_def content_metadata_sample
    by (simp add: getattr_default_def primary_coverage_def sample_coverage_def)
  then have "snd (get_wcs_content_metadata primary_env ''http://h/wcs'' ''cov'') =
          build_record (sample_service primary_coverage (Inr [])) ''cov'' primary_coverage
            \<lparr>crs = None, temporal_extent = None,
             spatial_extent = [(10, 20), (30, 20), (30, 40), (10, 40), (10, 20)]\<rparr>"
    by (simp add: get_bbox_primary rbind_def)
  then show "snd (get_wcs_content_metadata primary_env ''http://h/wcs'' ''cov'') = Inl KeyError"
    by (simp add: build_record_def rbind_def getattr_default_def getitem_def
          primary_coverage_def sample_coverage_def Let_def)
  show "snd (get_bbox flat_env ''http://h/wcs'' flat_coverage) = Inl KeyError"
    unfolding get_bbox_snd other_flat
    by (simp add: choose_bbox_def has_boundingboxes_def flat_coverage_def sample_coverage_def
          rbind_def other_result_def nth_err_def native_rect_def rect_of_def native_crs_def
          getitem_def crs_sample)
  show "snd (get_bbox bare_env ''http://h/wcs'' (bare_coverage\<lparr>boundingBox := Inl AttributeError\<rparr>))
        = Inl AttributeError"
    unfolding get_bbox_snd
    by (simp add: choose_bbox_def rbind_def)
qed

lemma other_plane:
  "other_boundingboxes plane_env ''http://h/wcs'' plane_coverage =
     ([GetCapabilities ''http://h/wcs'' ''2.0.1'' 60, DescribeCoverage (Some ''cov'')],
      [\<lparr>nativeSrs = Some ''http://www.opengis.net/def/crs/EPSG/0/4326'',
          bbox = Some [20, 10, 40, 30], bbox_temporal_extent = None\<rparr>])"
  unfolding plane_env_def
  by (simp add: other_boundingboxes_def getOtherBoundingBoxes_def get_wcs_sample io_bind_def
        plane_coverage_def sample_coverage_def sample_service_def parse_2d)

lemma other_urn:
  "other_boundingboxes urn_env ''http://h/wcs'' urn_coverage =
     ([GetCapabilities ''http://h/wcs'' ''2.0.1'' 60, DescribeCoverage (Some ''cov'')], [])"
  unfolding urn_env_def urn_coverage_def by (rule other_sample)

lemma crs_urn: "crs_of_srs ''urn:ogc:def:crs:EPSG::4326'' = Inl IndexError"
  by code_simp

text \<open>
  C4: the code at inputs where the claim promises a spatial extent.  For a coverage whose
  only source is a two-dimensional envelope of the describe-coverage document, the
  envelope is parsed to the rectangle \<open>20, 10, 40, 30\<close> and \<open>_get_bbox\<close> raises
  KeyError instead of returning its polygon; for a coverage whose only source is a native
  box \<open>1, 2, 3, 4\<close> with a URN as SRS, \<open>_get_bbox\<close> raises IndexError.  Neither gets
  a spatial extent, nor the whole-globe rectangle.
\<close>

theorem no_extent_for_resolvable_box:
  "boundingBox plane_coverage = Inr None
   \<and> boundingBoxWGS84 plane_coverage = Inr None
   \<and> boundingboxes plane_coverage = Inl ValueError
   \<and> snd (other_boundingboxes plane_env ''http://h/wcs'' plane_coverage) =
        [\<lparr>nativeSrs = Some ''http://www.opengis.net/def/crs/EPSG/0/4326'',
          bbox = Some [20, 10, 40, 30], bbox_temporal_extent = None\<rparr>]
   \<and> snd (get_bbox plane_env ''http://h/wcs'' plane_coverage) = Inl KeyError
   \<and> boundingBox urn_coverage = Inr None
   \<and> boundingBoxWGS84 urn_coverage = Inr None
   \<and> boundingboxes urn_coverage =
        Inr [\<lparr>nativeSrs = Some ''urn:ogc:def:crs:EPSG::4326'',
              bbox = Some [1, 2, 3, 4], bbox_temporal_extent = None\<rparr>]
   \<and> snd (get_bbox urn_env ''http://h/wcs'' urn_coverage) = Inl IndexError"
proof -
  have a: "boundingBox plane_coverage = Inr None" "boundingBoxWGS84 plane_coverage = Inr None"
    "boundingboxes plane_coverage = Inl ValueError"
    by (simp_all add: plane_coverage_def sample_coverage_def)
  have b: "boundingBox urn_coverage = Inr None" "boundingBoxWGS84 urn_coverage = Inr None"
    "boundingboxes urn_coverage =
        Inr [\<lparr>nativeSrs = Some ''urn:ogc:def:crs:EPSG::4326'',
              bbox = Some [1, 2, 3, 4], bbox_temporal_extent = None\<rparr>]"
    by (simp_all add: urn_coverage_def sample_coverage_def urn_box_def)
  have p: "snd (get_bbox plane_env ''http://h/wcs'' plane_coverage) = Inl KeyError"
    unfolding get_bbox_snd other_plane
    by (simp add: choose_bbox_def has_boundingboxes_def a
          rbind_def other_result_def nth_err_def native_rect_def rect_of_def native_crs_def
          getitem_def crs_sample)
  have u: "snd (get_bbox urn_env ''http://h/wcs'' urn_coverage) = Inl IndexError"
    unfolding get_bbox_snd other_urn
    by (simp add: choose_bbox_def has_boundingboxes_def b
          rbind_def native_result_def nth_err_def native_rect_def rect_of_def native_crs_def
          getitem_def crs_urn)
  from a b p u show ?thesis by (simp add: other_plane)
qed

section \<open>URL normalisation\<close>

subsection \<open>break_at, split_first\<close>

lemma break_at_None_iff: "break_at c s = None \<longleftrightarrow> c \<notin> set s"
  by (induction s) (auto split: option.splits)

lemma break_at_SomeD: "break_at c s = Some (a, b) \<Longrightarrow> s = a @ c # b \<and> c \<notin> set a"
  by (induction s arbitrary: a) (auto split: option.splits if_splits)

lemma break_at_SomeI: "c \<notin> set a \<Longrightarrow> break_at c (a @ c # b) = Some (a, b)"
  by (induction a) auto

lemma break_at_Some_iff: "break_at c s = Some (a, b) \<longleftrightarrow> s = a @ c # b \<and> c \<notin> set a"
  using break_at_SomeD break_at_SomeI by blast

lemma break_at_append: "c \<notin> set a \<Longrightarrow> break_at c (a @ c # b) = Some (a, b)"
  by (simp add: break_at_Some_iff)

lemma split_first_absent: "c \<notin> set s \<Longrightarrow> split_first c s = (s, [])"
  by (simp add: split_first_def break_at_None_iff[THEN iffD2])

lemma split_first_append: "c \<notin> set a \<Longrightarrow> split_first c (a @ c # b) = (a, b)"
  by (simp add: split_first_def break_at_append)

lemma split_first_cases:
  assumes "split_first c s = (a, b)"
  shows "(c \<notin> set s \<and> a = s \<and> b = []) \<or> (s = a @ c # b \<and> c \<notin> set a)"
proof (cases "break_at c s")
  case None
  with assms show ?thesis by (auto simp: split_first_def break_at_None_iff)
next
  case (Some ab)
  with assms show ?thesis by (cases ab) (auto simp: split_first_def break_at_Some_iff)
qed

subsection \<open>unquote\<close>

lemma unquote_no_percent: "CHR ''%'' \<notin> set s \<Longrightarrow> unquote s = s"
  by (induction s) auto

lemma unquote_append_no_percent: "CHR ''%'' \<notin> set a \<Longrightarrow> unquote (a @ b) = a @ unquote b"
  by (induction a) auto

lemma hexdigit_table:
  "list_all (\<lambda>k. is_hexdig (hexdigit k) \<and> hex_val (hexdigit k) = k) [0..<16]"
  by code_simp

lemma hexdigit_ok: "k < 16 \<Longrightarrow> is_hexdig (hexdigit k) \<and> hex_val (hexdigit k) = k"
  using hexdigit_table by (simp add: list_all_iff)

lemma hexbyte_hexdigit:
  "hexbyte (hexdigit ((of_char c :: nat) div 16)) (hexdigit ((of_char c :: nat) mod 16)) = c"
proof -
  have "(of_char c :: nat) < 16 * 16" by simp
  then have d: "(of_char c :: nat) div 16 < 16" by (rule less_mult_imp_div_less)
  have m: "(of_char c :: nat) mod 16 < 16" by simp
  show ?thesis
    using hexdigit_ok[OF d] hexdigit_ok[OF m] by (simp add: hexbyte_def)
qed

lemma always_safe_not_percent: "always_safe c \<Longrightarrow> c \<noteq> CHR ''%''"
  by (auto simp: always_safe_def)

lemma always_safe_not_space: "always_safe c \<Longrightarrow> c \<noteq> CHR '' ''"
  by (auto simp: always_safe_def)

lemma unquote_quote_plus_char:
  "unquote (quote_plus_char c @ r) = (if c = CHR '' '' then CHR ''+'' else c) # unquote r"
proof (cases "always_safe c")
  case True
  then show ?thesis
    using always_safe_not_percent always_safe_not_space by (auto simp: quote_plus_char_def)
next
  case False
  have "(of_char c :: nat) < 16 * 16" by simp
  then have d: "(of_char c :: nat) div 16 < 16" by (rule less_mult_imp_div_less)
  have m: "(of_char c :: nat) mod 16 < 16" by simp
  from False show ?thesis
    using hexdigit_ok[OF d] hexdigit_ok[OF m] hexbyte_hexdigit[of c]
    by (auto simp: quote_plus_char_def)
qed

lemma unquote_quote_plus: "unquote (quote_plus s @ r) = plusify s @ unquote r"
  by (induction s) (simp_all add: quote_plus_def plusify_def unquote_quote_plus_char)

subsection \<open>split_on, join_with\<close>

lemma split_on_absent: "c \<notin> set s \<Longrightarrow> split_on c s = [s]"
  by (induction s) auto

lemma split_on_Cons_sep: "c \<notin> set a \<Longrightarrow> split_on c (a @ c # b) = a # split_on c b"
  by (induction a) auto

lemma split_on_join:
  "xs \<noteq> [] \<Longrightarrow> (\<forall>x \<in> set xs. c \<notin> set x) \<Longrightarrow> split_on c (join_with [c] xs) = xs"
proof (induction "[c]" xs rule: join_with.induct[case_names Nil One More])
  case Nil
  then show ?case by simp
next
  case (One x)
  then show ?case by (simp add: split_on_absent)
next
  case (More x y ys)
  then show ?case by (simp add: split_on_Cons_sep)
qed

lemma split_on_pieces: "p \<in> set (split_on c s) \<Longrightarrow> c \<notin> set p \<and> set p \<subseteq> set s"
proof (induction s arbitrary: p)
  case Nil
  then show ?case by simp
next
  case (Cons x s)
  show ?case
  proof (cases "x = c")
    case True
    with Cons show ?thesis by auto
  next
    case False
    obtain q qs where q: "split_on c s = q # qs"
      using split_on_nonempty[of c s] by (cases "split_on c s") auto
    with False Cons.prems have "p = x # q \<or> p \<in> set qs" by auto
    then show ?thesis
    proof
      assume "p = x # q"
      with False Cons.IH[of q] q show ?thesis by auto
    next
      assume "p \<in> set qs"
      with Cons.IH[of p] q show ?thesis by auto
    qed
  qed
qed

subsection \<open>Dicts\<close>

lemma map_fst_update:
  "map fst (map (\<lambda>(k', v'). if k' = k then (k', v) else (k', v')) d) = map fst d"
  by (induction d) auto

lemma dict_set_distinct: "distinct (map fst d) \<Longrightarrow> distinct (map fst (dict_set d k v))"
  unfolding dict_set_def by (simp add: map_fst_update del: map_map)

lemma dict_set_subset: "set (dict_set d k v) \<subseteq> insert (k, v) (set d)"
  by (auto simp: dict_set_def split: if_splits)

lemma foldl_dict_inv:
  "distinct (map fst d) \<Longrightarrow> set d \<subseteq> S \<Longrightarrow> set xs \<subseteq> S \<Longrightarrow>
     distinct (map fst (foldl (\<lambda>d (k, v). dict_set d k v) d xs))
     \<and> set (foldl (\<lambda>d (k, v). dict_set d k v) d xs) \<subseteq> S"
proof (induction xs arbitrary: d)
  case Nil
  then show ?case by simp
next
  case (Cons x xs)
  obtain k v where x: "x = (k, v)" by (cases x)
  have "distinct (map fst (dict_set d k v))"
    using Cons.prems(1) by (rule dict_set_distinct)
  moreover have "set (dict_set d k v) \<subseteq> S"
    using dict_set_subset[of d k v] Cons.prems x by auto
  ultimately show ?case
    using Cons.IH[of "dict_set d k v"] Cons.prems x by simp
qed

lemma dict_of_distinct: "distinct (map fst (dict_of xs))"
  using foldl_dict_inv[of "[]" "set xs" xs] by (simp add: dict_of_def)

lemma dict_of_subset: "set (dict_of xs) \<subseteq> set xs"
  using foldl_dict_inv[of "[]" "set xs" xs] by (simp add: dict_of_def)

lemma foldl_dict_fresh:
  "distinct (map fst (d @ xs)) \<Longrightarrow> foldl (\<lambda>d (k, v). dict_set d k v) d xs = d @ xs"
proof (induction xs arbitrary: d)
  case Nil
  then show ?case by simp
next
  case (Cons x xs)
  obtain k v where x: "x = (k, v)" by (cases x)
  from Cons.prems x have "k \<notin> fst ` set d" by auto
  then have "dict_set d k v = d @ [(k, v)]" by (simp add: dict_set_def)
  with Cons.IH[of "d @ [(k, v)]"] Cons.prems x show ?case by simp
qed

lemma dict_of_id: "distinct (map fst xs) \<Longrightarrow> dict_of xs = xs"
  using foldl_dict_fresh[of "[]" xs] by (simp add: dict_of_def)

lemma dict_pop_distinct: "distinct (map fst d) \<Longrightarrow> distinct (map fst (dict_pop d k))"
  by (simp add: dict_pop_def distinct_map_filter)

lemma dict_pop_subset: "set (dict_pop d k) \<subseteq> set d"
  by (auto simp: dict_pop_def)

lemma dict_pop_key: "k \<notin> fst ` set (dict_pop d k)"
  by (auto simp: dict_pop_def)

lemma dict_pop_absent: "k \<notin> fst ` set d \<Longrightarrow> dict_pop d k = d"
  by (induction d) (auto simp: dict_pop_def)

lemma map_of_absent: "k \<notin> fst ` set d \<Longrightarrow> map_of d k = None"
  by (simp add: map_of_eq_None_iff)

lemma plain_append [simp]: "plain (a @ b) \<longleftrightarrow> plain a \<and> plain b"
  by (auto simp: plain_def)

lemma plain_Cons [simp]:
  "plain (c # s) \<longleftrightarrow>
     c \<noteq> CHR ''%'' \<and> c \<noteq> CHR 0x09 \<and> c \<noteq> CHR 0x0D \<and> c \<noteq> CHR 0x0A \<and> plain s"
  by (auto simp: plain_def)

lemma plain_Nil [simp]: "plain []"
  by (simp add: plain_def)

lemma plain_subset: "plain s \<Longrightarrow> set t \<subseteq> set s \<Longrightarrow> plain t"
  by (auto simp: plain_def)

lemma plain_no_percent: "plain s \<Longrightarrow> CHR ''%'' \<notin> set s"
  by (auto simp: plain_def)

lemma set_plusify: "set (plusify s) \<subseteq> insert CHR ''+'' (set s)"
  by (auto simp: plusify_def)

lemma plusify_absent: "c \<noteq> CHR ''+'' \<Longrightarrow> c \<notin> set s \<Longrightarrow> c \<notin> set (plusify s)"
  using set_plusify[of s] by auto

lemma plain_plusify: "plain s \<Longrightarrow> plain (plusify s)"
  by (auto simp: plain_def plusify_def)

lemma plusify_Nil_iff [simp]: "plusify s = [] \<longleftrightarrow> s = []"
  by (simp add: plusify_def)

lemma unplus_plusify:
  "CHR ''+'' \<notin> set s \<Longrightarrow> map (\<lambda>c. if c = CHR ''+'' then CHR '' '' else c) (plusify s) = s"
  by (induction s) (auto simp: plusify_def)

lemma unquote_plus_plusify:
  "CHR ''+'' \<notin> set s \<Longrightarrow> CHR ''%'' \<notin> set s \<Longrightarrow> unquote_plus (plusify s) = s"
  by (simp add: unquote_plus_def unplus_plusify unquote_no_percent)

lemma unquote_plus_plain:
  "CHR ''%'' \<notin> set s \<Longrightarrow>
     unquote_plus s = map (\<lambda>c. if c = CHR ''+'' then CHR '' '' else c) s"
  by (simp add: unquote_plus_def unquote_no_percent image_iff)

subsection \<open>The first parse gives good items\<close>

lemma unplus_set: "set (map (\<lambda>c. if c = CHR ''+'' then CHR '' '' else c) s) \<subseteq> insert CHR '' '' (set s)"
  by auto

lemma parse_field_good:
  assumes "plain nv" "CHR ''#'' \<notin> set nv" "CHR ''&'' \<notin> set nv" "kv \<in> set (parse_field nv)"
  shows "good_item kv"
proof -
  from assms(4) obtain nmv where b0: "break_at CHR ''='' nv = Some nmv"
    by (cases "break_at CHR ''='' nv") (auto simp: parse_field_def split: if_splits)
  obtain name val where nmv: "nmv = (name, val)" by (cases nmv)
  from b0 nmv have b: "break_at CHR ''='' nv = Some (name, val)" by simp
  from assms(4) b have v: "val \<noteq> []" and kv: "kv = (unquote_plus name, unquote_plus val)"
    by (auto simp: parse_field_def split: if_splits)
  from b have nv: "nv = name @ CHR ''='' # val" and ne: "CHR ''='' \<notin> set name"
    by (auto dest: break_at_SomeD)
  from nv assms(1) have pn: "plain name" and pv: "plain val" by auto
  let ?m = "map (\<lambda>c. if c = CHR ''+'' then CHR '' '' else c)"
  have un: "unquote_plus name = ?m name" and uv: "unquote_plus val = ?m val"
    using pn pv by (simp_all add: unquote_plus_plain plain_no_percent)
  have "set (?m name) \<subseteq> insert CHR '' '' (set name)" "set (?m val) \<subseteq> insert CHR '' '' (set val)"
    by auto
  moreover have "CHR ''+'' \<notin> set (?m name)" "CHR ''+'' \<notin> set (?m val)"
    by auto
  moreover have "plain (?m name)" "plain (?m val)"
    using pn pv by (auto simp: plain_def)
  moreover have "?m val \<noteq> []" using v by simp
  ultimately show ?thesis
    using assms(2,3) ne nv unfolding kv un uv good_item_def
    by auto
qed

lemma parse_qsl_good:
  assumes "plain q" "CHR ''#'' \<notin> set q" "kv \<in> set (parse_qsl q)"
  shows "good_item kv"
proof -
  from assms(3) obtain nv where nv: "nv \<in> set (split_on CHR ''&'' q)" and kv: "kv \<in> set (parse_field nv)"
    by (auto simp: parse_qsl_def split: if_splits)
  from split_on_pieces[OF nv] have "CHR ''&'' \<notin> set nv" "set nv \<subseteq> set q" by auto
  with assms(1,2) have "plain nv" "CHR ''#'' \<notin> set nv" "CHR ''&'' \<notin> set nv"
    by (auto intro: plain_subset)
  then show ?thesis using kv by (rule parse_field_good)
qed

subsection \<open>Decoding the encoded items\<close>

lemma unquote_enc_item:
  "unquote (quote_plus k @ ''='' @ quote_plus v @ r) = dec_item (k, v) @ unquote r"
  by (simp add: unquote_quote_plus dec_item_def)

lemma unquote_urlencode: "unquote (urlencode d @ r) = dec_items d @ unquote r"
proof (induction d rule: induct_list012)
  case 1
  then show ?case by (simp add: urlencode_def dec_items_def)
next
  case (2 x)
  then show ?case
    by (cases x) (simp add: urlencode_def dec_items_def unquote_quote_plus dec_item_def)
next
  case (3 x y zs)
  obtain k v where x: "x = (k, v)" by (cases x)
  have "unquote (urlencode (x # y # zs) @ r) =
          unquote (quote_plus k @ ''='' @ quote_plus v @ (''&'' @ urlencode (y # zs) @ r))"
    by (simp add: urlencode_def x)
  also have "\<dots> = dec_item (k, v) @ unquote (''&'' @ urlencode (y # zs) @ r)"
    by (rule unquote_enc_item)
  also have "\<dots> = dec_item (k, v) @ ''&'' @ dec_items (y # zs) @ unquote r"
    using 3(2) by simp
  finally show ?case by (simp add: dec_items_def x)
qed

lemma urlencode_Nil_iff: "urlencode d = [] \<longleftrightarrow> d = []"
proof (induction d rule: induct_list012)
  case 1
  then show ?case by (simp add: urlencode_def)
next
  case (2 x)
  then show ?case by (cases x) (simp add: urlencode_def)
next
  case (3 x y zs)
  then show ?case by (cases x) (simp add: urlencode_def)
qed

lemma dec_items_Nil_iff: "dec_items d = [] \<longleftrightarrow> d = []"
proof (induction d rule: induct_list012)
  case 1
  then show ?case by (simp add: dec_items_def)
next
  case (2 x)
  then show ?case by (cases x) (simp add: dec_items_def dec_item_def)
next
  case (3 x y zs)
  then show ?case by (cases x) (simp add: dec_items_def dec_item_def)
qed

lemma set_join_with: "set (join_with sep xs) \<subseteq> set sep \<union> \<Union> (set ` set xs)"
  by (induction sep xs rule: join_with.induct) auto

lemma dec_item_props:
  assumes "good_item kv"
  shows "plain (dec_item kv)" "CHR ''#'' \<notin> set (dec_item kv)" "CHR ''&'' \<notin> set (dec_item kv)"
    "parse_field (dec_item kv) = [kv]"
proof -
  obtain k v where kv: "kv = (k, v)" by (cases kv)
  from assms kv have g: "v \<noteq> []" "plain k" "plain v" "CHR ''&'' \<notin> set k" "CHR ''&'' \<notin> set v"
    "CHR ''+'' \<notin> set k" "CHR ''+'' \<notin> set v" "CHR ''#'' \<notin> set k" "CHR ''#'' \<notin> set v"
    "CHR ''='' \<notin> set k"
    by (auto simp: good_item_def)
  have "plain (plusify k)" "plain (plusify v)"
    using g by (simp_all add: plain_plusify)
  moreover have "plain ''=''" by (simp add: plain_def)
  ultimately show "plain (dec_item kv)"
    by (simp add: kv dec_item_def)
  show "CHR ''#'' \<notin> set (dec_item kv)"
    using g by (simp add: kv dec_item_def plusify_absent)
  show "CHR ''&'' \<notin> set (dec_item kv)"
    using g by (simp add: kv dec_item_def plusify_absent)
  have "break_at CHR ''='' (plusify k @ CHR ''='' # plusify v) = Some (plusify k, plusify v)"
    using g by (intro break_at_SomeI plusify_absent) auto
  then show "parse_field (dec_item kv) = [kv]"
    using g by (simp add: kv dec_item_def parse_field_def unquote_plus_plusify plain_no_percent)
qed

lemma concat_map_singleton: "(\<And>x. x \<in> set xs \<Longrightarrow> f (g x) = [x]) \<Longrightarrow> concat (map f (map g xs)) = xs"
  by (induction xs) auto

lemma parse_qsl_dec_items:
  assumes "\<forall>kv \<in> set d. good_item kv"
  shows "parse_qsl (dec_items d) = d"
proof (cases "d = []")
  case True
  then show ?thesis by (simp add: dec_items_def parse_qsl_def)
next
  case False
  then have ne: "dec_items d \<noteq> []" by (simp add: dec_items_Nil_iff)
  have "split_on CHR ''&'' (join_with ''&'' (map dec_item d)) = map dec_item d"
    using False assms by (intro split_on_join) (auto simp: dec_item_props)
  then have "parse_qsl (dec_items d) = concat (map parse_field (map dec_item d))"
    using ne by (simp add: parse_qsl_def dec_items_def)
  also have "\<dots> = d"
    using assms by (intro concat_map_singleton) (auto simp: dec_item_props)
  finally show ?thesis .
qed

lemma dec_items_props:
  assumes "\<forall>kv \<in> set d. good_item kv"
  shows "plain (dec_items d)" "CHR ''#'' \<notin> set (dec_items d)"
proof -
  have s: "set (dec_items d) \<subseteq> {CHR ''&''} \<union> \<Union> (set ` set (map dec_item d))"
    using set_join_with[of "''&''" "map dec_item d"] by (simp add: dec_items_def)
  show "plain (dec_items d)"
    unfolding plain_def
  proof
    fix c assume "c \<in> set (dec_items d)"
    with s have "c = CHR ''&'' \<or> (\<exists>kv \<in> set d. c \<in> set (dec_item kv))" by auto
    then show "c \<noteq> CHR ''%'' \<and> c \<noteq> CHR 0x09 \<and> c \<noteq> CHR 0x0D \<and> c \<noteq> CHR 0x0A"
      using assms dec_item_props(1) by (auto simp: plain_def)
  qed
  show "CHR ''#'' \<notin> set (dec_items d)"
  proof
    assume "CHR ''#'' \<in> set (dec_items d)"
    with s have "\<exists>kv \<in> set d. CHR ''#'' \<in> set (dec_item kv)" by auto
    then show False using assms dec_item_props(2) by blast
  qed
qed

lemma takeWhile_absent: "c \<notin> set x \<Longrightarrow> takeWhile (\<lambda>y. y \<noteq> c) x = x"
  by (induction x) auto

lemma tailseg_no_slash: "CHR ''/'' \<notin> set x \<Longrightarrow> tailseg x = x"
  by (simp add: tailseg_def takeWhile_absent)

lemma takeWhile_stop: "c \<notin> set a \<Longrightarrow> takeWhile (\<lambda>y. y \<noteq> c) (a @ c # b) = a"
  by (induction a) auto

lemma tailseg_slash [simp]: "CHR ''/'' \<notin> set t \<Longrightarrow> tailseg (pre @ CHR ''/'' # t) = t"
  by (simp add: tailseg_def takeWhile_stop)

lemma slash_decomp:
  assumes "CHR ''/'' \<in> set x"
  shows "\<exists>pre. x = pre @ CHR ''/'' # tailseg x
           \<and> length x - Suc (length (takeWhile (\<lambda>c. c \<noteq> CHR ''/'') (rev x))) = length pre"
proof -
  let ?t = "takeWhile (\<lambda>c. c \<noteq> CHR ''/'') (rev x)"
  let ?d = "dropWhile (\<lambda>c. c \<noteq> CHR ''/'') (rev x)"
  from assms have "?d \<noteq> []" by simp
  then obtain r where d: "?d = CHR ''/'' # r"
    using hd_dropWhile[of "\<lambda>c. c \<noteq> CHR ''/''" "rev x"] by (cases ?d) auto
  have "rev x = ?t @ ?d" by simp
  then have "rev (rev x) = rev (?t @ CHR ''/'' # r)" using d by simp
  then have x: "x = rev r @ CHR ''/'' # rev ?t" by simp
  have "length x = length r + Suc (length ?t)"
    by (subst x) simp
  then have "length x - Suc (length ?t) = length (rev r)" by simp
  with x show ?thesis unfolding tailseg_def by blast
qed

lemma tailseg_no_slash_in: "CHR ''/'' \<notin> set (tailseg x)"
  unfolding tailseg_def using set_takeWhileD[of "CHR ''/''" "\<lambda>c. c \<noteq> CHR ''/''" "rev x"] by auto

lemma splitparams_slash:
  assumes "x = pre @ CHR ''/'' # t" "CHR ''/'' \<notin> set t"
  shows "splitparams x =
           (case break_at CHR '';'' t of None \<Rightarrow> (x, []) | Some (a, b) \<Rightarrow> (pre @ CHR ''/'' # a, b))"
proof -
  have in_x: "CHR ''/'' \<in> set x" using assms by simp
  from slash_decomp[OF in_x] obtain pre' where
    p: "x = pre' @ CHR ''/'' # tailseg x"
    and k: "length x - Suc (length (takeWhile (\<lambda>c. c \<noteq> CHR ''/'') (rev x))) = length pre'"
    by blast
  have ts: "tailseg x = t" using assms by simp
  with p assms(1) have "pre' = pre" by simp
  with k have k': "length x - Suc (length (takeWhile (\<lambda>c. c \<noteq> CHR ''/'') (rev x))) = length pre"
    by simp
  have dr: "drop (length pre) x = CHR ''/'' # t" and tk: "take (length pre) x = pre"
    using assms(1) by simp_all
  show ?thesis
    using in_x by (simp add: splitparams_def k' dr tk Let_def split: option.splits)
qed

lemma first_sep_unique:
  "c \<notin> set a \<Longrightarrow> c \<notin> set a' \<Longrightarrow> a @ c # b = a' @ c # b' \<Longrightarrow> a = a' \<and> b = b'"
proof (induction a arbitrary: a')
  case Nil
  then show ?case by (cases a') auto
next
  case (Cons x a)
  then show ?case by (cases a') auto
qed

lemma pathstr_char:
  "pathstr sch x = (if drops_semicolon sch x then butlast x else x)"
proof (cases "sch \<in> set uses_params \<and> CHR '';'' \<in> set x")
  case False
  then have "\<not> drops_semicolon sch x"
  proof (cases "sch \<in> set uses_params")
    case True
    with False have n: "CHR '';'' \<notin> set x" by simp
    have "set (tailseg x) \<subseteq> set x"
      unfolding tailseg_def using set_takeWhileD[of _ "\<lambda>c. c \<noteq> CHR ''/''" "rev x"] by auto
    with n show ?thesis by (auto simp: drops_semicolon_def)
  next
    case False
    then show ?thesis by (simp add: drops_semicolon_def)
  qed
  with False show ?thesis by (auto simp: pathstr_def)
next
  case True
  show ?thesis
  proof (cases "CHR ''/'' \<in> set x")
    case s: True
    from slash_decomp[OF s] obtain pre where p: "x = pre @ CHR ''/'' # tailseg x" by blast
    note sp = splitparams_slash[OF p tailseg_no_slash_in]
    show ?thesis
    proof (cases "break_at CHR '';'' (tailseg x)")
      case None
      then have "CHR '';'' \<notin> set (tailseg x)" by (simp add: break_at_None_iff)
      then have "\<not> drops_semicolon sch x" by (auto simp: drops_semicolon_def)
      with None True sp show ?thesis by (simp add: pathstr_def)
    next
      case (Some ab)
      obtain a b where ab: "ab = (a, b)" by (cases ab)
      from Some ab have t: "tailseg x = a @ CHR '';'' # b" and na: "CHR '';'' \<notin> set a"
        by (auto dest: break_at_SomeD)
      show ?thesis
      proof (cases "b = []")
        case bn: True
        with t na True have "drops_semicolon sch x" by (auto simp: drops_semicolon_def)
        moreover have "butlast x = pre @ CHR ''/'' # a"
          by (subst p) (simp add: t bn butlast_append)
        ultimately show ?thesis using True sp Some ab bn by (simp add: pathstr_def)
      next
        case bn: False
        have "\<not> drops_semicolon sch x"
        proof
          assume "drops_semicolon sch x"
          then obtain a' where "tailseg x = a' @ '';''" "CHR '';'' \<notin> set a'"
            by (auto simp: drops_semicolon_def)
          with t have "a @ CHR '';'' # b = a' @ CHR '';'' # []" by simp
          with na \<open>CHR '';'' \<notin> set a'\<close> have "b = []"
            using first_sep_unique[of "CHR '';''" a a' b "[]"] by simp
          with bn show False by simp
        qed
        moreover have "pre @ CHR ''/'' # a @ CHR '';'' # b = x"
          using p t by simp
        ultimately show ?thesis using True sp Some ab bn by (simp add: pathstr_def)
      qed
    qed
  next
    case s: False
    then have ts: "tailseg x = x" by (rule tailseg_no_slash)
    from True obtain ab where Some: "break_at CHR '';'' x = Some ab"
      by (cases "break_at CHR '';'' x") (auto simp: break_at_None_iff)
    obtain a b where ab: "ab = (a, b)" by (cases ab)
    from Some ab have t: "x = a @ CHR '';'' # b" and na: "CHR '';'' \<notin> set a"
      by (auto dest: break_at_SomeD)
    have sp: "splitparams x = (a, b)" using s Some ab by (simp add: splitparams_def)
    show ?thesis
    proof (cases "b = []")
      case bn: True
      with t na True ts have "drops_semicolon sch x" by (auto simp: drops_semicolon_def)
      moreover have "butlast x = a" by (simp add: t bn)
      ultimately show ?thesis using True sp bn by (simp add: pathstr_def)
    next
      case bn: False
      have "\<not> drops_semicolon sch x"
      proof
        assume "drops_semicolon sch x"
        then obtain a' where "tailseg x = a' @ '';''" "CHR '';'' \<notin> set a'"
          by (auto simp: drops_semicolon_def)
        with t ts have "a @ CHR '';'' # b = a' @ CHR '';'' # []" by simp
        with na \<open>CHR '';'' \<notin> set a'\<close> have "b = []"
          using first_sep_unique[of "CHR '';''" a a' b "[]"] by simp
        with bn show False by simp
      qed
      with True sp bn t show ?thesis by (simp add: pathstr_def)
    qed
  qed
qed

lemma tailseg_butlast:
  assumes "tailseg x = a @ '';''"
  shows "tailseg (butlast x) = a"
proof (cases "CHR ''/'' \<in> set x")
  case True
  from slash_decomp[OF True] obtain pre where p: "x = pre @ CHR ''/'' # tailseg x" by blast
  have n: "CHR ''/'' \<notin> set a" using tailseg_no_slash_in[of x] assms by auto
  have "butlast x = pre @ CHR ''/'' # a"
    by (subst p) (simp add: assms butlast_append)
  with n show ?thesis by simp
next
  case False
  then have "tailseg x = x" by (rule tailseg_no_slash)
  with assms have x: "x = a @ '';''" by simp
  with False have "CHR ''/'' \<notin> set a" by auto
  with x show ?thesis by (simp add: tailseg_no_slash)
qed

lemma pathstr_stable: "\<not> drops_semicolon sch (pathstr sch x)"
proof (cases "drops_semicolon sch x")
  case True
  then obtain a where t: "tailseg x = a @ '';''" and na: "CHR '';'' \<notin> set a"
    by (auto simp: drops_semicolon_def)
  have "tailseg (butlast x) = a" using t by (rule tailseg_butlast)
  with na have "\<not> drops_semicolon sch (butlast x)"
    by (auto simp: drops_semicolon_def)
  with True show ?thesis by (simp add: pathstr_char)
next
  case False
  then show ?thesis by (simp add: pathstr_char)
qed

lemma pathstr_idem: "pathstr sch (pathstr sch x) = pathstr sch x"
  using pathstr_stable[of sch x] by (subst pathstr_char) simp

lemma tailseg_Cons_slash: "tailseg (CHR ''/'' # y) = tailseg y"
proof (cases "CHR ''/'' \<in> set y")
  case True
  from slash_decomp[OF True] obtain pre where p: "y = pre @ CHR ''/'' # tailseg y" by blast
  have "tailseg ((CHR ''/'' # pre) @ CHR ''/'' # tailseg y) = tailseg y"
    using tailseg_no_slash_in by (rule tailseg_slash)
  with p show ?thesis by simp
next
  case False
  then have "tailseg ([] @ CHR ''/'' # y) = y" by (rule tailseg_slash)
  with False show ?thesis by (simp add: tailseg_no_slash)
qed

lemma pathstr_slash_stable:
  "pathstr sch (CHR ''/'' # pathstr sch x) = CHR ''/'' # pathstr sch x"
proof -
  have "drops_semicolon sch (CHR ''/'' # pathstr sch x) = drops_semicolon sch (pathstr sch x)"
    by (simp add: drops_semicolon_def tailseg_Cons_slash)
  with pathstr_stable[of sch x] show ?thesis
    by (subst pathstr_char) simp
qed

lemma pathstr_prefix: "pathstr sch x = x \<or> x = pathstr sch x @ '';''"
proof (cases "drops_semicolon sch x")
  case True
  then obtain a where t: "tailseg x = a @ '';''" by (auto simp: drops_semicolon_def)
  have "set (tailseg x) \<subseteq> set x"
    unfolding tailseg_def using set_takeWhileD[of _ "\<lambda>c. c \<noteq> CHR ''/''" "rev x"] by auto
  with t have ne: "x \<noteq> []" by auto
  have "last x = CHR '';''"
  proof (cases "CHR ''/'' \<in> set x")
    case True
    from slash_decomp[OF True] obtain pre where p: "x = pre @ CHR ''/'' # tailseg x" by blast
    show ?thesis by (subst p) (simp add: t)
  next
    case False
    then have "tailseg x = x" by (rule tailseg_no_slash)
    with t show ?thesis by simp
  qed
  with ne have "x = butlast x @ '';''"
    using append_butlast_last_id[of x] by simp
  with True show ?thesis by (simp add: pathstr_char)
next
  case False
  then show ?thesis by (simp add: pathstr_char)
qed

lemma tidy_simps [simp]:
  "tidy []"
  "tidy (c # s) \<longleftrightarrow> c \<noteq> CHR 0x09 \<and> c \<noteq> CHR 0x0D \<and> c \<noteq> CHR 0x0A \<and> tidy s"
  "tidy (a @ b) \<longleftrightarrow> tidy a \<and> tidy b"
  by (auto simp: tidy_def)

lemma tidy_subset: "tidy s \<Longrightarrow> set t \<subseteq> set s \<Longrightarrow> tidy t"
  by (auto simp: tidy_def)

lemma plain_tidy: "plain s \<Longrightarrow> tidy s"
  by (auto simp: plain_def tidy_def)

lemma plain_iff: "plain s \<longleftrightarrow> CHR ''%'' \<notin> set s \<and> tidy s"
  by (auto simp: plain_def tidy_def)

subsection \<open>Character classes\<close>

lemma scheme_char_table:
  "list_all (\<lambda>c. c \<noteq> CHR '':'' \<and> c \<noteq> CHR ''/'' \<and> c \<noteq> CHR ''?'' \<and> c \<noteq> CHR ''#''
                  \<and> c \<noteq> CHR ''%'' \<and> c \<noteq> CHR 0x09 \<and> c \<noteq> CHR 0x0D \<and> c \<noteq> CHR 0x0A
                  \<and> 32 < (of_char c :: nat) \<and> is_scheme_char (lower_char c))
     ''abcdefghijklmnopqrstuvwxyzABCDEFGHIJKLMNOPQRSTUVWXYZ0123456789+-.''"
  by code_simp

lemma scheme_char_props:
  assumes "is_scheme_char c"
  shows "c \<noteq> CHR '':''" "c \<noteq> CHR ''/''" "c \<noteq> CHR ''?''" "c \<noteq> CHR ''#''" "c \<noteq> CHR ''%''"
    "c \<noteq> CHR 0x09" "c \<noteq> CHR 0x0D" "c \<noteq> CHR 0x0A" "32 < (of_char c :: nat)"
    "is_scheme_char (lower_char c)"
  using assms scheme_char_table unfolding list_all_iff is_scheme_char_def by blast+

lemma alpha_table:
  "list_all (\<lambda>c. is_ascii_alpha (lower_char c) \<and> is_scheme_char c)
     ''ABCDEFGHIJKLMNOPQRSTUVWXYZabcdefghijklmnopqrstuvwxyz''"
  by code_simp

lemma alpha_lower: "is_ascii_alpha c \<Longrightarrow> is_ascii_alpha (lower_char c)"
  using alpha_table unfolding list_all_iff is_ascii_alpha_def by blast

lemma alpha_scheme: "is_ascii_alpha c \<Longrightarrow> is_scheme_char c"
  using alpha_table unfolding list_all_iff is_ascii_alpha_def by blast

lemma lower_char_idem: "lower_char (lower_char c) = lower_char c"
proof (cases "(65::nat) \<le> of_char c \<and> of_char c \<le> (90::nat)")
  case True
  then have "(of_char c + 32 :: nat) < 256" by simp
  then have "(of_char (char_of (of_char c + 32 :: nat) :: char) :: nat) = of_char c + 32"
    by simp
  then have "\<not> ((65::nat) \<le> of_char (char_of (of_char c + 32 :: nat) :: char)
              \<and> (of_char (char_of (of_char c + 32 :: nat) :: char) :: nat) \<le> 90)"
    using True by simp
  then have "lower_char (char_of (of_char c + 32 :: nat)) = char_of (of_char c + 32 :: nat)"
    unfolding lower_char_def by (rule if_not_P)
  moreover have "lower_char c = char_of (of_char c + 32 :: nat)"
    unfolding lower_char_def using True by (rule if_P)
  ultimately show ?thesis by simp
next
  case False
  then have "lower_char c = c"
    unfolding lower_char_def by (rule if_not_P)
  then show ?thesis by simp
qed

lemma lower_idem: "lower (lower s) = lower s"
  by (simp add: lower_def lower_char_idem)

lemma lower_scheme: "list_all is_scheme_char a \<Longrightarrow> list_all is_scheme_char (lower a)"
  by (simp add: lower_def list_all_iff scheme_char_props(10))

lemma lower_Nil_iff [simp]: "lower a = [] \<longleftrightarrow> a = []"
  by (simp add: lower_def)

lemma hd_lower: "a \<noteq> [] \<Longrightarrow> hd (lower a) = lower_char (hd a)"
  by (cases a) (simp_all add: lower_def)

lemma scheme_chars_no_colon: "list_all is_scheme_char a \<Longrightarrow> CHR '':'' \<notin> set a"
  using scheme_char_props(1) by (auto simp: list_all_iff)

lemma scheme_chars_plain: "list_all is_scheme_char a \<Longrightarrow> plain a"
  using scheme_char_props(5-8) by (auto simp: list_all_iff plain_def)

subsection \<open>Sanitising\<close>

lemma sanitize_props:
  "tidy (sanitize_url u)" "set (sanitize_url u) \<subseteq> set u"
  "sanitize_url u = [] \<or> 32 < (of_char (hd (sanitize_url u)) :: nat)"
proof -
  let ?d = "dropWhile (\<lambda>c. (of_char c :: nat) \<le> 32) u"
  show "tidy (sanitize_url u)" by (auto simp: sanitize_url_def tidy_def)
  show "set (sanitize_url u) \<subseteq> set u"
    using set_dropWhileD[of _ "\<lambda>c. (of_char c :: nat) \<le> 32" u] by (auto simp: sanitize_url_def)
  show "sanitize_url u = [] \<or> 32 < (of_char (hd (sanitize_url u)) :: nat)"
  proof (cases ?d)
    case Nil
    then have "sanitize_url u = []" by (simp only: sanitize_url_def filter.simps)
    then show ?thesis by simp
  next
    case (Cons x xs)
    with hd_dropWhile[of "\<lambda>c. (of_char c :: nat) \<le> 32" u] have x: "32 < (of_char x :: nat)"
      by simp
    then have "x \<noteq> CHR 0x09 \<and> x \<noteq> CHR 0x0D \<and> x \<noteq> CHR 0x0A" by auto
    with Cons have "sanitize_url u = x # filter (\<lambda>c. c \<noteq> CHR 0x09 \<and> c \<noteq> CHR 0x0D \<and> c \<noteq> CHR 0x0A) xs"
      unfolding sanitize_url_def by simp
    with x show ?thesis by simp
  qed
qed

lemma sanitize_id:
  assumes "tidy s" "s = [] \<or> 32 < (of_char (hd s) :: nat)"
  shows "sanitize_url s = s"
proof -
  have "dropWhile (\<lambda>c. (of_char c :: nat) \<le> 32) s = s"
    using assms(2) by (cases s) auto
  moreover have "filter (\<lambda>c. c \<noteq> CHR 0x09 \<and> c \<noteq> CHR 0x0D \<and> c \<noteq> CHR 0x0A) s = s"
    using assms(1) by (auto simp: tidy_def filter_id_conv)
  ultimately show ?thesis by (simp add: sanitize_url_def)
qed

subsection \<open>Scheme\<close>

lemma split_scheme_cases:
  assumes "split_scheme v = (sch, url1)"
  shows "(sch = [] \<and> url1 = v \<and> \<not> has_scheme v)
         \<or> (\<exists>a. v = a @ CHR '':'' # url1 \<and> a \<noteq> [] \<and> is_ascii_alpha (hd a)
                 \<and> list_all is_scheme_char a \<and> sch = lower a)"
proof (cases "break_at CHR '':'' v")
  case None
  with assms show ?thesis by (simp add: split_scheme_def has_scheme_def)
next
  case (Some ab)
  obtain a b where ab: "ab = (a, b)" by (cases ab)
  from Some ab have u: "v = a @ CHR '':'' # b" by (auto dest: break_at_SomeD)
  show ?thesis
  proof (cases "a \<noteq> [] \<and> is_ascii_alpha (hd a) \<and> list_all is_scheme_char a")
    case True
    with assms Some ab have "sch = lower a" "url1 = b" by (simp_all add: split_scheme_def)
    with True u show ?thesis by blast
  next
    case False
    with assms Some ab have "sch = []" "url1 = v" by (auto simp: split_scheme_def)
    moreover from False Some ab have "\<not> has_scheme v" by (auto simp: has_scheme_def)
    ultimately show ?thesis by simp
  qed
qed

lemma has_scheme_prefix:
  assumes "has_scheme x"
  shows "has_scheme (x @ r)"
proof -
  from assms obtain a b where b: "break_at CHR '':'' x = Some (a, b)"
    and a: "a \<noteq> []" "is_ascii_alpha (hd a)" "list_all is_scheme_char a"
    by (auto simp: has_scheme_def split: option.splits)
  from b have "x = a @ CHR '':'' # b" "CHR '':'' \<notin> set a" by (auto dest: break_at_SomeD)
  then have "break_at CHR '':'' (x @ r) = Some (a, b @ r)"
    using break_at_SomeI[of "CHR '':''" a "b @ r"] by simp
  with a show ?thesis by (simp add: has_scheme_def)
qed

lemma has_scheme_hd: "has_scheme x \<Longrightarrow> x \<noteq> [] \<and> is_ascii_alpha (hd x)"
proof -
  assume "has_scheme x"
  then obtain a b where b: "break_at CHR '':'' x = Some (a, b)"
    and a: "a \<noteq> []" "is_ascii_alpha (hd a)"
    by (auto simp: has_scheme_def split: option.splits)
  from b have "x = a @ CHR '':'' # b" by (auto dest: break_at_SomeD)
  with a show ?thesis by (cases a) auto
qed

lemma alpha_not_delim: "is_ascii_alpha c \<Longrightarrow> c \<noteq> CHR ''/'' \<and> c \<noteq> CHR ''?'' \<and> c \<noteq> CHR ''#''"
  by (auto simp: is_ascii_alpha_def)

subsection \<open>Network location\<close>

lemma split_netloc_cases:
  assumes "split_netloc url1 = (nl, url2)"
  shows "(\<forall>c \<in> set nl. \<not> is_netloc_delim c)
         \<and> ((take 2 url1 = ''//'' \<and> url1 = ''//'' @ nl @ url2
              \<and> (url2 = [] \<or> is_netloc_delim (hd url2)))
            \<or> (take 2 url1 \<noteq> ''//'' \<and> nl = [] \<and> url2 = url1))"
proof (cases "take 2 url1 = ''//''")
  case True
  let ?r = "drop 2 url1"
  from True assms have nl: "nl = takeWhile (\<lambda>c. \<not> is_netloc_delim c) ?r"
    and u2: "url2 = dropWhile (\<lambda>c. \<not> is_netloc_delim c) ?r"
    by (simp_all add: split_netloc_def)
  have "url1 = take 2 url1 @ ?r" by simp
  with True have "url1 = ''//'' @ ?r" by simp
  moreover have "?r = nl @ url2" using nl u2 by simp
  ultimately have "url1 = ''//'' @ nl @ url2" by simp
  moreover have "\<forall>c \<in> set nl. \<not> is_netloc_delim c"
    using nl by (auto dest: set_takeWhileD)
  moreover have "url2 = [] \<or> is_netloc_delim (hd url2)"
    using u2 hd_dropWhile[of "\<lambda>c. \<not> is_netloc_delim c" ?r] by auto
  ultimately show ?thesis using True by blast
next
  case False
  with assms show ?thesis by (simp add: split_netloc_def)
qed

lemma split_first_sets:
  assumes "split_first c s = (a, b)"
  shows "set a \<subseteq> set s" "set b \<subseteq> set s" "c \<notin> set a" "\<exists>r. s = a @ r"
  using split_first_cases[OF assms] by auto

lemma not_has_scheme_slash: "x = [] \<or> hd x = CHR ''/'' \<Longrightarrow> \<not> has_scheme x"
  using has_scheme_hd[of x] alpha_not_delim[of "hd x"] by auto

lemma urlsplit_parts:
  assumes pct: "CHR ''%'' \<notin> set u" and sp: "urlsplit bad u = Inr (sch, nl, p0, q, f)"
  shows "wf_parts bad sch nl p0 q f"
    and "CHR ''%'' \<notin> set sch \<union> set nl \<union> set p0 \<union> set q \<union> set f"
proof -
  define v where "v = sanitize_url u"
  obtain sch' v1 where s1: "split_scheme v = (sch', v1)" by (cases "split_scheme v")
  obtain nl' v2 where s2: "split_netloc v1 = (nl', v2)" by (cases "split_netloc v1")
  obtain v3 f' where s3: "split_first CHR ''#'' v2 = (v3, f')" by (cases "split_first CHR ''#'' v2")
  obtain p q' where s4: "split_first CHR ''?'' v3 = (p, q')" by (cases "split_first CHR ''?'' v3")
  have us: "urlsplit bad u = (if nl' \<noteq> [] \<and> bad nl' then Inl ValueError
                               else Inr (sch', nl', p, q', f'))"
    by (simp add: urlsplit_def Let_def v_def[symmetric] s1 s2 s3 s4)
  with sp have eqs: "sch' = sch" "nl' = nl" "p = p0" "q' = q" "f' = f"
    and ok: "\<not> (nl \<noteq> [] \<and> bad nl)"
    by (auto split: if_splits)
  note s1 = s1[unfolded eqs] and s2 = s2[unfolded eqs] and s3 = s3[unfolded eqs]
    and s4 = s4[unfolded eqs]
  have v: "tidy v" "set v \<subseteq> set u" "v = [] \<or> 32 < (of_char (hd v) :: nat)"
    unfolding v_def by (rule sanitize_props)+
  from split_scheme_cases[OF s1]
  have sc: "(sch = [] \<and> v1 = v \<and> \<not> has_scheme v)
         \<or> (\<exists>a. v = a @ CHR '':'' # v1 \<and> a \<noteq> [] \<and> is_ascii_alpha (hd a)
                 \<and> list_all is_scheme_char a \<and> sch = lower a)" .
  then have v1: "set v1 \<subseteq> set v" by auto
  have nosch: "v1 = v \<and> \<not> has_scheme v" if "sch = []"
    using sc that by (auto simp: lower_def)
  from split_netloc_cases[OF s2]
  have nd: "\<forall>c \<in> set nl. \<not> is_netloc_delim c"
    and nc: "(take 2 v1 = ''//'' \<and> v1 = ''//'' @ nl @ v2 \<and> (v2 = [] \<or> is_netloc_delim (hd v2)))
            \<or> (take 2 v1 \<noteq> ''//'' \<and> nl = [] \<and> v2 = v1)"
    by blast+
  from nc have v2: "set v2 \<subseteq> set v1" "set nl \<subseteq> set v1" by auto
  note f3 = split_first_sets[OF s3] and f4 = split_first_sets[OF s4]
  from f3(4) f4(4) obtain r where pr: "v2 = p0 @ r" by auto
  have sub: "set nl \<subseteq> set v" "set p0 \<subseteq> set v" "set q \<subseteq> set v" "set f \<subseteq> set v"
    using v1 v2 f3 f4 by blast+
  have schp: "sch = [] \<or> (is_ascii_alpha (hd sch) \<and> list_all is_scheme_char sch \<and> lower sch = sch)"
    using sc by (auto simp: lower_idem lower_scheme hd_lower alpha_lower)
  have hdp: "p0 = [] \<or> hd p0 = CHR ''/''" if "take 2 v1 = ''//''"
  proof (cases p0)
    case Nil
    then show ?thesis by simp
  next
    case (Cons c cs)
    with pr have "hd v2 = c" "v2 \<noteq> []" by auto
    with nc that have "is_netloc_delim c" by auto
    moreover from f3(3) f4(3) f4(1) Cons have "c \<noteq> CHR ''#''" "c \<noteq> CHR ''?''" by auto
    ultimately show ?thesis using Cons by (simp add: is_netloc_delim_def)
  qed
  have w4: "nl \<noteq> [] \<longrightarrow> p0 = [] \<or> hd p0 = CHR ''/''"
    using nc hdp by auto
  have w5: "CHR ''?'' \<notin> set p0" "CHR ''#'' \<notin> set p0" "CHR ''#'' \<notin> set q"
    using f3(3) f4(1,2,3) by auto
  have w6: "tidy nl" "tidy p0" "tidy q" "tidy f"
    using v(1) sub by (auto intro: tidy_subset)
  have w7: "32 < (of_char (hd p0) :: nat)" if "sch = []" "nl = []" "p0 \<noteq> []"
  proof (cases "take 2 v1 = ''//''")
    case True
    with hdp that have "hd p0 = CHR ''/''" by simp
    then show ?thesis by simp
  next
    case False
    with nc have "v2 = v1" by simp
    moreover from nosch that(1) have "v1 = v" by auto
    ultimately have "v = p0 @ r" using pr by simp
    with that(3) have "hd v = hd p0" "v \<noteq> []" by auto
    with v(3) show ?thesis by simp
  qed
  have w8: "\<not> has_scheme p0" if "sch = []" "nl = []"
  proof (cases "take 2 v1 = ''//''")
    case True
    with hdp show ?thesis by (simp add: not_has_scheme_slash)
  next
    case False
    with nc have "v2 = v1" by simp
    moreover from nosch that(1) have "v1 = v" "\<not> has_scheme v" by auto
    ultimately have "v = p0 @ r" using pr by simp
    with \<open>\<not> has_scheme v\<close> has_scheme_prefix[of p0 r] show ?thesis by auto
  qed
  show "wf_parts bad sch nl p0 q f"
    unfolding wf_parts_def using schp nd ok w4 w5 w6 w7 w8 by blast
  have "CHR ''%'' \<notin> set v" using pct v(2) by auto
  moreover have "CHR ''%'' \<notin> set sch"
    using schp scheme_chars_plain[of sch] by (auto simp: plain_def)
  ultimately show "CHR ''%'' \<notin> set sch \<union> set nl \<union> set p0 \<union> set q \<union> set f"
    using sub by auto
qed

lemma urlunsplit_eq:
  "urlunsplit sch nl x q f =
     (if sch \<noteq> [] then sch @ '':'' else []) @ url_body sch nl x @ url_tail q f"
  by (simp add: urlunsplit_def url_body_def url_path_def url_tail_def url_query_def
        uses_slashes_def Let_def)

lemma url_tail_hd: "url_tail q f = [] \<or> hd (url_tail q f) = CHR ''?'' \<or> hd (url_tail q f) = CHR ''#''"
  by (simp add: url_tail_def url_query_def)

lemma url_tail_tidy: "tidy q \<Longrightarrow> tidy f \<Longrightarrow> tidy (url_tail q f)"
  by (simp add: url_tail_def url_query_def)

lemma split_hash_tail:
  "CHR ''#'' \<notin> set y \<Longrightarrow> CHR ''#'' \<notin> set q \<Longrightarrow>
     split_first CHR ''#'' (y @ url_tail q f) = (y @ url_query q, f)"
proof (cases "f = []")
  case True
  assume "CHR ''#'' \<notin> set y" "CHR ''#'' \<notin> set q"
  then have "CHR ''#'' \<notin> set (y @ url_query q)" by (simp add: url_query_def)
  then have "split_first CHR ''#'' (y @ url_query q) = (y @ url_query q, [])"
    by (rule split_first_absent)
  with True show ?thesis by (simp add: url_tail_def)
next
  case False
  assume "CHR ''#'' \<notin> set y" "CHR ''#'' \<notin> set q"
  then have "CHR ''#'' \<notin> set (y @ url_query q)" by (simp add: url_query_def)
  then have "split_first CHR ''#'' ((y @ url_query q) @ CHR ''#'' # f) = (y @ url_query q, f)"
    by (rule split_first_append)
  with False show ?thesis by (simp add: url_tail_def)
qed

lemma split_question_query:
  "CHR ''?'' \<notin> set y \<Longrightarrow> split_first CHR ''?'' (y @ url_query q) = (y, q)"
proof (cases "q = []")
  case True
  assume "CHR ''?'' \<notin> set y"
  then have "split_first CHR ''?'' y = (y, [])" by (rule split_first_absent)
  with True show ?thesis by (simp add: url_query_def)
next
  case False
  assume "CHR ''?'' \<notin> set y"
  then have "split_first CHR ''?'' (y @ CHR ''?'' # q) = (y, q)" by (rule split_first_append)
  with False show ?thesis by (simp add: url_query_def)
qed

lemma takeWhile_dropWhile_stop:
  assumes "\<forall>c \<in> set a. P c" "r = [] \<or> \<not> P (hd r)"
  shows "takeWhile P (a @ r) = a" "dropWhile P (a @ r) = r"
proof -
  have "takeWhile P r = []" "dropWhile P r = r"
    using assms(2) by (cases r, simp, simp)+
  with assms(1) show "takeWhile P (a @ r) = a" "dropWhile P (a @ r) = r"
    by (induction a) simp_all
qed

lemma prefix_before_sep:
  "c \<notin> set p \<Longrightarrow> p @ s = a @ c # b \<Longrightarrow> \<exists>r. a = p @ r"
proof (induction p arbitrary: a)
  case Nil
  then show ?case by simp
next
  case (Cons x p)
  then show ?case by (cases a) auto
qed

lemma url_path_props:
  assumes "wf_parts bad sch nl x q f"
  shows "CHR ''?'' \<notin> set (url_path sch nl x)" "CHR ''#'' \<notin> set (url_path sch nl x)"
    "tidy (url_path sch nl x)"
    "uses_slashes sch nl x \<longrightarrow> url_path sch nl x = [] \<or> hd (url_path sch nl x) = CHR ''/''"
    "\<not> uses_slashes sch nl x \<longrightarrow> url_path sch nl x = x"
proof -
  from assms have a: "CHR ''?'' \<notin> set x" "CHR ''#'' \<notin> set x" "tidy x"
    by (simp_all add: wf_parts_def)
  then show "CHR ''?'' \<notin> set (url_path sch nl x)" "CHR ''#'' \<notin> set (url_path sch nl x)"
    "tidy (url_path sch nl x)"
    by (simp_all add: url_path_def)
  show "uses_slashes sch nl x \<longrightarrow> url_path sch nl x = [] \<or> hd (url_path sch nl x) = CHR ''/''"
    by (cases x) (auto simp: url_path_def)
  show "\<not> uses_slashes sch nl x \<longrightarrow> url_path sch nl x = x"
    by (simp add: url_path_def)
qed

lemma split_netloc_body:
  assumes wf: "wf_parts bad sch nl x q f"
    and t: "t = [] \<or> hd t = CHR ''?'' \<or> hd t = CHR ''#''"
  shows "split_netloc (url_body sch nl x @ t) = (nl, url_path sch nl x @ t)"
proof (cases "uses_slashes sch nl x")
  case True
  let ?y = "url_path sch nl x"
  let ?r = "?y @ t"
  from url_path_props(4)[OF wf] True have y: "?y = [] \<or> hd ?y = CHR ''/''" by simp
  have r: "?r = [] \<or> \<not> (\<not> is_netloc_delim (hd ?r))"
  proof (cases "?y = []")
    case True
    with t show ?thesis by (auto simp: is_netloc_delim_def)
  next
    case False
    with y have "hd ?r = CHR ''/''" by simp
    then show ?thesis by (simp add: is_netloc_delim_def)
  qed
  from wf have nd: "\<forall>c \<in> set nl. \<not> is_netloc_delim c" by (simp add: wf_parts_def)
  note td = takeWhile_dropWhile_stop[OF nd r]
  have b: "url_body sch nl x @ t = ''//'' @ nl @ ?r"
    using True by (simp add: url_body_def)
  show ?thesis
    unfolding b split_netloc_def using td by simp
next
  case False
  then have nl: "nl = []" and x2: "take 2 x \<noteq> ''//''" by (simp_all add: uses_slashes_def)
  from False have b: "url_body sch nl x = x" "url_path sch nl x = x"
    by (simp_all add: url_body_def url_path_def)
  have "take 2 (x @ t) \<noteq> ''//''"
  proof (cases x)
    case Nil
    with t show ?thesis by (cases t) auto
  next
    case (Cons c cs)
    show ?thesis
    proof (cases cs)
      case Nil
      with Cons t show ?thesis by (cases t) auto
    next
      case (Cons d ds)
      with \<open>x = c # cs\<close> x2 show ?thesis by simp
    qed
  qed
  then show ?thesis unfolding b by (simp add: split_netloc_def nl)
qed

lemma split_scheme_has: "\<not> has_scheme z \<Longrightarrow> split_scheme z = ([], z)"
  by (auto simp: split_scheme_def has_scheme_def split: option.splits)

lemma not_has_scheme_tail:
  assumes "\<not> has_scheme x" "t = [] \<or> hd t = CHR ''?'' \<or> hd t = CHR ''#''"
  shows "\<not> has_scheme (x @ t)"
proof
  assume h: "has_scheme (x @ t)"
  then obtain a b where b: "break_at CHR '':'' (x @ t) = Some (a, b)"
    and a: "a \<noteq> []" "is_ascii_alpha (hd a)" "list_all is_scheme_char a"
    by (auto simp: has_scheme_def split: option.splits)
  from b have e: "x @ t = a @ CHR '':'' # b" and na: "CHR '':'' \<notin> set a"
    by (auto dest: break_at_SomeD)
  show False
  proof (cases "CHR '':'' \<in> set x")
    case True
    then obtain ab where s: "break_at CHR '':'' x = Some ab"
      by (cases "break_at CHR '':'' x") (auto simp: break_at_None_iff)
    obtain a' b' where ab: "ab = (a', b')" by (cases ab)
    from s ab have x: "x = a' @ CHR '':'' # b'" and na': "CHR '':'' \<notin> set a'"
      by (auto dest: break_at_SomeD)
    from e x have "a' @ CHR '':'' # (b' @ t) = a @ CHR '':'' # b" by simp
    with na na' have "a' = a"
      using first_sep_unique[of "CHR '':''" a' a "b' @ t" b] by simp
    with s ab a have "has_scheme x" by (simp add: has_scheme_def)
    with assms(1) show False by simp
  next
    case False
    have "t \<noteq> []"
    proof
      assume "t = []"
      with e have "x = a @ CHR '':'' # b" by simp
      with False show False by simp
    qed
    then obtain c cs where t: "t = c # cs" by (cases t) auto
    with assms(2) have c: "c = CHR ''?'' \<or> c = CHR ''#''" by simp
    then have cn: "c \<noteq> CHR '':''" by auto
    from False cn have "CHR '':'' \<notin> set (x @ [c])" by simp
    moreover from e t have "(x @ [c]) @ cs = a @ CHR '':'' # b" by simp
    ultimately have "\<exists>r. a = (x @ [c]) @ r"
      by (rule prefix_before_sep)
    then have "c \<in> set a" by auto
    with a(3) have "is_scheme_char c" by (simp add: list_all_iff)
    with c scheme_char_props(3,4) show False by blast
  qed
qed

lemma url_body_tidy:
  assumes "wf_parts bad sch nl x q f"
  shows "tidy (url_body sch nl x)"
proof -
  from assms have "tidy nl" by (simp add: wf_parts_def)
  with url_path_props(3)[OF assms] show ?thesis by (simp add: url_body_def)
qed

lemma resplit:
  assumes wf: "wf_parts bad sch nl x q f"
  shows "urlsplit bad (urlunsplit sch nl x q f) = Inr (sch, nl, url_path sch nl x, q, f)"
proof -
  let ?t = "url_tail q f"
  let ?y = "url_path sch nl x"
  let ?b = "url_body sch nl x"
  let ?w = "urlunsplit sch nl x q f"
  note th = url_tail_hd[of q f]
  from wf have schp: "sch = [] \<or> (is_ascii_alpha (hd sch) \<and> list_all is_scheme_char sch \<and> lower sch = sch)"
    and tq: "tidy q" "tidy f" and hq: "CHR ''#'' \<notin> set q"
    and ok: "nl \<noteq> [] \<longrightarrow> \<not> bad nl"
    and hx: "sch = [] \<and> nl = [] \<and> x \<noteq> [] \<longrightarrow> 32 < (of_char (hd x) :: nat)"
    and ns: "sch = [] \<and> nl = [] \<longrightarrow> \<not> has_scheme x"
    by (simp_all add: wf_parts_def)
  have tt: "tidy ?t" using tq by (rule url_tail_tidy)
  have tb: "tidy ?b" using wf by (rule url_body_tidy)
  have p32: "?b @ ?t = [] \<or> 32 < (of_char (hd (?b @ ?t)) :: nat)" if "sch = []"
  proof (cases "uses_slashes sch nl x")
    case True
    then show ?thesis by (simp add: url_body_def)
  next
    case False
    then have nl: "nl = []" by (simp add: uses_slashes_def)
    from False have b: "?b = x" by (simp add: url_body_def url_path_def)
    show ?thesis
    proof (cases "x = []")
      case True
      with b th show ?thesis by auto
    next
      case False
      with hx that nl b show ?thesis by simp
    qed
  qed
  have nhs: "\<not> has_scheme (?b @ ?t)" if "sch = []"
  proof (cases "uses_slashes sch nl x")
    case True
    then have "hd (?b @ ?t) = CHR ''/''" by (simp add: url_body_def)
    then show ?thesis by (simp add: not_has_scheme_slash)
  next
    case False
    then have nl: "nl = []" by (simp add: uses_slashes_def)
    from False have b: "?b = x" by (simp add: url_body_def url_path_def)
    from ns that nl have "\<not> has_scheme x" by simp
    then show ?thesis unfolding b using th by (rule not_has_scheme_tail)
  qed
  have s1: "sanitize_url ?w = ?w \<and> split_scheme ?w = (sch, ?b @ ?t)"
  proof (cases "sch = []")
    case True
    then have w: "?w = ?b @ ?t" by (simp add: urlunsplit_eq)
    have "sanitize_url (?b @ ?t) = ?b @ ?t"
      using tb tt p32[OF True] by (intro sanitize_id) simp_all
    moreover have "split_scheme (?b @ ?t) = ([], ?b @ ?t)"
      using nhs[OF True] by (rule split_scheme_has)
    ultimately show ?thesis using True w by simp
  next
    case False
    with schp have a: "is_ascii_alpha (hd sch)" "list_all is_scheme_char sch" "lower sch = sch"
      by simp_all
    from False have w: "?w = sch @ CHR '':'' # (?b @ ?t)" by (simp add: urlunsplit_eq)
    have "tidy sch" using a(2) scheme_chars_plain plain_tidy by blast
    moreover have "32 < (of_char (hd sch) :: nat)"
      using a(1) alpha_scheme scheme_char_props(9) by blast
    ultimately have "sanitize_url ?w = ?w"
      unfolding w using tb tt False by (intro sanitize_id) (cases sch; simp)+
    moreover have "break_at CHR '':'' (sch @ CHR '':'' # (?b @ ?t)) = Some (sch, ?b @ ?t)"
      using scheme_chars_no_colon[OF a(2)] by (rule break_at_SomeI)
    then have "split_scheme ?w = (sch, ?b @ ?t)"
      unfolding w using False a by (simp add: split_scheme_def)
    ultimately show ?thesis by simp
  qed
  have s2: "split_netloc (?b @ ?t) = (nl, ?y @ ?t)"
    using wf th by (rule split_netloc_body)
  have s3: "split_first CHR ''#'' (?y @ ?t) = (?y @ url_query q, f)"
    using url_path_props(2)[OF wf] hq by (rule split_hash_tail)
  have s4: "split_first CHR ''?'' (?y @ url_query q) = (?y, q)"
    using url_path_props(1)[OF wf] by (rule split_question_query)
  show ?thesis
    using ok by (auto simp add: urlsplit_def[of bad ?w] s1 s2 s3 s4 Let_def)
qed

subsection \<open>The function in terms of the split\<close>

lemma cleaned_by_split:
  assumes "urlsplit bad (unquote z) = Inr (sch, nl, p0, q, f)"
  shows "\<exists>s v r. get_cleaned_url_params bad z =
           Inr (urlunsplit sch nl (pathstr sch p0) (urlencode (query_items q)) f, s, v, r)"
proof -
  obtain p' prm where pp: "(if sch \<in> set uses_params \<and> CHR '';'' \<in> set p0 then splitparams p0
                            else (p0, [])) = (p', prm)"
    by (cases "(if sch \<in> set uses_params \<and> CHR '';'' \<in> set p0 then splitparams p0
                            else (p0, []))")
  then have ps: "pathstr sch p0 = (if prm \<noteq> [] then p' @ '';'' @ prm else p')"
    by (simp add: pathstr_def)
  have up: "urlparse bad (unquote z) =
              Inr \<lparr>scheme = sch, netloc = nl, path = p', params = prm, query = q, fragment = f\<rparr>"
    using assms pp by (simp add: urlparse_def)
  show ?thesis
    by (simp add: get_cleaned_url_params_def up Let_def geturl_def ps query_items_def)
qed

lemma cleaned_Inr_split:
  assumes "get_cleaned_url_params bad z = Inr res"
  shows "\<exists>sch nl p0 q f. urlsplit bad (unquote z) = Inr (sch, nl, p0, q, f)"
proof (cases "urlsplit bad (unquote z)")
  case (Inl e)
  then have "get_cleaned_url_params bad z = Inl e"
    by (simp add: get_cleaned_url_params_def urlparse_def)
  with assms show ?thesis by simp
next
  case (Inr t)
  then show ?thesis by (cases t) auto
qed

lemma cleaned_fixed:
  assumes sp: "urlsplit bad (unquote z) = Inr (sch, nl, p0, q, f)"
    and it: "dict_of (parse_qsl q) = d" "''version'' \<notin> fst ` set d" "''service'' \<notin> fst ` set d"
      "''request'' \<notin> fst ` set d"
  shows "get_cleaned_url_params bad z =
           Inr (urlunsplit sch nl (pathstr sch p0) (urlencode d) f, None, ''2.0.1'', None)"
proof -
  obtain p' prm where pp: "(if sch \<in> set uses_params \<and> CHR '';'' \<in> set p0 then splitparams p0
                            else (p0, [])) = (p', prm)"
    by (cases "(if sch \<in> set uses_params \<and> CHR '';'' \<in> set p0 then splitparams p0
                            else (p0, []))")
  then have ps: "pathstr sch p0 = (if prm \<noteq> [] then p' @ '';'' @ prm else p')"
    by (simp add: pathstr_def)
  have up: "urlparse bad (unquote z) =
              Inr \<lparr>scheme = sch, netloc = nl, path = p', params = prm, query = q, fragment = f\<rparr>"
    using sp pp by (simp add: urlparse_def)
  show ?thesis
    using it(2-4)
    by (simp add: get_cleaned_url_params_def up Let_def geturl_def ps it(1) dict_pop_absent
          map_of_absent)
qed

lemma url_query_Nil_iff: "url_query q = [] \<longleftrightarrow> q = []"
  by (simp add: url_query_def)

lemma unquote_url_tail:
  assumes "CHR ''%'' \<notin> set f"
  shows "unquote (url_tail (urlencode d) f) = url_tail (dec_items d) f"
proof (cases "d = []")
  case True
  then have "urlencode d = []" "dec_items d = []"
    by (simp_all add: urlencode_Nil_iff dec_items_Nil_iff)
  then show ?thesis
    using assms by (simp add: url_tail_def url_query_def unquote_no_percent)
next
  case False
  then have ne: "urlencode d \<noteq> []" "dec_items d \<noteq> []"
    by (simp_all add: urlencode_Nil_iff dec_items_Nil_iff)
  let ?fp = "if f \<noteq> [] then ''#'' @ f else []"
  have fp: "CHR ''%'' \<notin> set ?fp" using assms by simp
  have "unquote (url_tail (urlencode d) f) = unquote (''?'' @ urlencode d @ ?fp)"
    using ne by (simp add: url_tail_def url_query_def)
  also have "\<dots> = ''?'' @ unquote (urlencode d @ ?fp)"
    by (rule unquote_append_no_percent) simp
  also have "\<dots> = ''?'' @ dec_items d @ unquote ?fp"
    by (simp only: unquote_urlencode)
  also have "\<dots> = ''?'' @ dec_items d @ ?fp"
  proof -
    have "unquote ?fp = ?fp" using fp by (rule unquote_no_percent)
    then show ?thesis by simp
  qed
  also have "\<dots> = url_tail (dec_items d) f"
    using ne by (simp add: url_tail_def url_query_def)
  finally show ?thesis .
qed

lemma unquote_urlunsplit:
  assumes "CHR ''%'' \<notin> set sch \<union> set nl \<union> set x \<union> set f"
  shows "unquote (urlunsplit sch nl x (urlencode d) f) = urlunsplit sch nl x (dec_items d) f"
proof -
  let ?pre = "(if sch \<noteq> [] then sch @ '':'' else []) @ url_body sch nl x"
  have p: "CHR ''%'' \<notin> set ?pre"
    using assms by (simp add: url_body_def url_path_def)
  have "unquote (?pre @ url_tail (urlencode d) f) = ?pre @ unquote (url_tail (urlencode d) f)"
    using p by (rule unquote_append_no_percent)
  also have "\<dots> = ?pre @ url_tail (dec_items d) f"
    using assms by (simp add: unquote_url_tail)
  finally show ?thesis by (simp add: urlunsplit_eq)
qed

lemma wf_parts_path_query:
  assumes wf: "wf_parts bad sch nl p0 q f"
    and j: "j = p0 \<or> p0 = j @ '';''"
    and e: "tidy e" "CHR ''#'' \<notin> set e"
  shows "wf_parts bad sch nl j e f"
proof -
  from j obtain r where p0: "p0 = j @ r" by auto
  from wf have a: "sch = [] \<or> (is_ascii_alpha (hd sch) \<and> list_all is_scheme_char sch \<and> lower sch = sch)"
    "\<forall>c \<in> set nl. \<not> is_netloc_delim c" "nl \<noteq> [] \<longrightarrow> \<not> bad nl"
    "nl \<noteq> [] \<longrightarrow> p0 = [] \<or> hd p0 = CHR ''/''"
    "CHR ''?'' \<notin> set p0" "CHR ''#'' \<notin> set p0" "tidy nl" "tidy p0" "tidy f"
    "sch = [] \<and> nl = [] \<and> p0 \<noteq> [] \<longrightarrow> 32 < (of_char (hd p0) :: nat)"
    "sch = [] \<and> nl = [] \<longrightarrow> \<not> has_scheme p0"
    by (simp_all add: wf_parts_def)
  have hd: "hd p0 = hd j \<and> p0 \<noteq> []" if "j \<noteq> []"
    using that p0 by auto
  have b4: "nl \<noteq> [] \<longrightarrow> j = [] \<or> hd j = CHR ''/''"
  proof (cases "j = []")
    case True
    then show ?thesis by simp
  next
    case False
    from hd[OF False] a(4) show ?thesis by auto
  qed
  have b5: "CHR ''?'' \<notin> set j" "CHR ''#'' \<notin> set j" "tidy j"
    using a(5,6,8) p0 by auto
  have b6: "sch = [] \<and> nl = [] \<and> j \<noteq> [] \<longrightarrow> 32 < (of_char (hd j) :: nat)"
  proof (cases "j = []")
    case True
    then show ?thesis by simp
  next
    case False
    from hd[OF False] a(10) show ?thesis by auto
  qed
  have b7: "sch = [] \<and> nl = [] \<longrightarrow> \<not> has_scheme j"
    using a(11) has_scheme_prefix[of j r] p0 by auto
  show ?thesis
    unfolding wf_parts_def using a(1,2,3,7,9) b4 b5 b6 b7 e by blast
qed

lemma url_path_cases: "url_path sch nl x = x \<or> url_path sch nl x = CHR ''/'' # x"
  by (simp add: url_path_def)

lemma pathstr_url_path:
  "pathstr sch (url_path sch nl (pathstr sch x)) = url_path sch nl (pathstr sch x)"
  using url_path_cases[of sch nl "pathstr sch x"] pathstr_idem[of sch x]
    pathstr_slash_stable[of sch x]
  by auto

lemma urlunsplit_url_path:
  "urlunsplit sch nl (url_path sch nl x) q f = urlunsplit sch nl x q f"
proof (cases "uses_slashes sch nl x \<and> x \<noteq> [] \<and> take 1 x \<noteq> ''/''")
  case False
  then have "url_path sch nl x = x" unfolding url_path_def by (rule if_not_P)
  then show ?thesis by simp
next
  case True
  then have "url_path sch nl x = ''/'' @ x" unfolding url_path_def by (rule if_P)
  then have y: "url_path sch nl x = CHR ''/'' # x" by simp
  from True have "take 2 x \<noteq> ''//''" by (cases x) auto
  with True have c: "nl \<noteq> [] \<or> (sch \<noteq> [] \<and> sch \<in> set uses_netloc)"
    by (simp add: uses_slashes_def)
  from True obtain c0 cs where x: "x = c0 # cs" "c0 \<noteq> CHR ''/''" by (cases x) auto
  show ?thesis
    unfolding y urlunsplit_def using c x by (simp add: Let_def)
qed

lemma query_items_props:
  assumes "plain q" "CHR ''#'' \<notin> set q"
  shows "\<forall>kv \<in> set (query_items q). good_item kv"
    "distinct (map fst (query_items q))"
    "''version'' \<notin> fst ` set (query_items q)"
    "''service'' \<notin> fst ` set (query_items q)"
    "''request'' \<notin> fst ` set (query_items q)"
proof -
  let ?d0 = "dict_of (parse_qsl q)"
  let ?d1 = "dict_pop ?d0 ''version''"
  let ?d2 = "dict_pop ?d1 ''service''"
  have sub: "set (query_items q) \<subseteq> set ?d2" "set ?d2 \<subseteq> set ?d1" "set ?d1 \<subseteq> set ?d0"
    "set ?d0 \<subseteq> set (parse_qsl q)"
    unfolding query_items_def by (rule dict_pop_subset dict_of_subset)+
  then have "set (query_items q) \<subseteq> set (parse_qsl q)" by blast
  then show "\<forall>kv \<in> set (query_items q). good_item kv"
    using parse_qsl_good[OF assms] by blast
  show "distinct (map fst (query_items q))"
    unfolding query_items_def by (intro dict_pop_distinct dict_of_distinct)
  have "''version'' \<notin> fst ` set ?d1" by (rule dict_pop_key)
  with sub(1,2) show "''version'' \<notin> fst ` set (query_items q)" by blast
  have "''service'' \<notin> fst ` set ?d2" by (rule dict_pop_key)
  with sub(1) show "''service'' \<notin> fst ` set (query_items q)" by blast
  show "''request'' \<notin> fst ` set (query_items q)"
    unfolding query_items_def by (rule dict_pop_key)
qed

text \<open>
  C9, amended: the normalisation is idempotent on URLs whose percent escapes are single.
  For every URL \<open>u\<close> whose unquoted form contains no \<open>%\<close> character (whatever its
  query parameters, service, version and request included) and that
  \<open>get_cleaned_url_params\<close> accepts, applying the function to the canonical URL it
  returned succeeds and returns the same canonical URL, with no service, no request and
  the default version.
\<close>

theorem cleaned_url_idempotent_single_escapes:
  assumes pct: "CHR ''%'' \<notin> set (unquote u)"
    and first: "get_cleaned_url_params bad u = Inr (w, s, v, r)"
  shows "get_cleaned_url_params bad w = Inr (w, None, ''2.0.1'', None)"
proof -
  from cleaned_Inr_split[OF first] obtain sch nl p0 q f
    where sp: "urlsplit bad (unquote u) = Inr (sch, nl, p0, q, f)" by blast
  note wf = urlsplit_parts(1)[OF pct sp] and np = urlsplit_parts(2)[OF pct sp]
  define j where "j = pathstr sch p0"
  define d where "d = query_items q"
  from cleaned_by_split[OF sp] first have w: "w = urlunsplit sch nl j (urlencode d) f"
    by (auto simp: j_def d_def)
  have jp: "j = p0 \<or> p0 = j @ '';''"
    unfolding j_def using pathstr_prefix[of sch p0] by auto
  from wf have "tidy q" "CHR ''#'' \<notin> set q" by (simp_all add: wf_parts_def)
  with np have pq: "plain q" "CHR ''#'' \<notin> set q" by (simp_all add: plain_iff)
  note qi = query_items_props[OF pq, folded d_def]
  have npj: "CHR ''%'' \<notin> set sch \<union> set nl \<union> set j \<union> set f"
    using np jp by auto
  have uw: "unquote w = urlunsplit sch nl j (dec_items d) f"
    unfolding w using npj by (rule unquote_urlunsplit)
  have "tidy (dec_items d)" "CHR ''#'' \<notin> set (dec_items d)"
    using dec_items_props[OF qi(1)] by (simp_all add: plain_tidy)
  with wf jp have wf2: "wf_parts bad sch nl j (dec_items d) f"
    by (rule wf_parts_path_query)
  have sp2: "urlsplit bad (unquote w) = Inr (sch, nl, url_path sch nl j, dec_items d, f)"
    unfolding uw using wf2 by (rule resplit)
  have pd: "dict_of (parse_qsl (dec_items d)) = d"
    using qi(1,2) by (simp add: parse_qsl_dec_items dict_of_id)
  have "get_cleaned_url_params bad w =
          Inr (urlunsplit sch nl (pathstr sch (url_path sch nl j)) (urlencode d) f,
               None, ''2.0.1'', None)"
    using sp2 pd qi(3,4,5) by (rule cleaned_fixed)
  also have "pathstr sch (url_path sch nl j) = url_path sch nl j"
    unfolding j_def by (rule pathstr_url_path)
  also have "urlunsplit sch nl (url_path sch nl j) (urlencode d) f = w"
    unfolding w by (rule urlunsplit_url_path)
  finally show ?thesis .
qed

text \<open>
  The theorem at a URL with escaped slashes in a query value, a service and a version.
\<close>

theorem cleaned_url_idempotent_single_escapes_witness:
  "CHR ''%'' \<notin> set (unquote ''http://h/wcs?map=%2Fdata%2Fwcs.map&service=WCS&version=1.1.0&x=a b'')
   \<and> CHR ''%'' \<in> set ''http://h/wcs?map=%2Fdata%2Fwcs.map&service=WCS&version=1.1.0&x=a b''
   \<and> get_cleaned_url_params (\<lambda>n. False)
         ''http://h/wcs?map=%2Fdata%2Fwcs.map&service=WCS&version=1.1.0&x=a b''
       = Inr (''http://h/wcs?map=%2Fdata%2Fwcs.map&x=a+b'', Some ''WCS'', ''1.1.0'', None)
   \<and> get_cleaned_url_params (\<lambda>n. False) ''http://h/wcs?map=%2Fdata%2Fwcs.map&x=a+b''
       = Inr (''http://h/wcs?map=%2Fdata%2Fwcs.map&x=a+b'', None, ''2.0.1'', None)"
proof -
  have p: "CHR ''%'' \<notin> set (unquote ''http://h/wcs?map=%2Fdata%2Fwcs.map&service=WCS&version=1.1.0&x=a b'')"
    by code_simp
  have p': "CHR ''%'' \<in> set ''http://h/wcs?map=%2Fdata%2Fwcs.map&service=WCS&version=1.1.0&x=a b''"
    by simp
  have f: "get_cleaned_url_params (\<lambda>n. False)
             ''http://h/wcs?map=%2Fdata%2Fwcs.map&service=WCS&version=1.1.0&x=a b''
           = Inr (''http://h/wcs?map=%2Fdata%2Fwcs.map&x=a+b'', Some ''WCS'', ''1.1.0'', None)"
    by code_simp
  from cleaned_url_idempotent_single_escapes[OF p f] p p' f show ?thesis
    by simp
qed

text \<open>
  C9, as stated, fails: a doubly escaped character survives the first normalisation as a
  single escape, and the second normalisation decodes it.  The URL carries service,
  version and request parameters.
\<close>

theorem double_escape_not_idempotent:
  "get_cleaned_url_params (\<lambda>n. False)
       ''http://h/a%2520b?service=WCS&version=2.0.1&request=GetCapabilities''
     = Inr (''http://h/a%20b'', Some ''WCS'', ''2.0.1'', Some ''GetCapabilities'')
   \<and> get_cleaned_url_params (\<lambda>n. False) ''http://h/a%20b''
     = Inr (''http://h/a b'', None, ''2.0.1'', None)
   \<and> ''http://h/a b'' \<noteq> ''http://h/a%20b''"
  by code_simp

end
